theory Spec2Isabelle
  imports Complex_Main "HOL-Library.Signed_Division"
begin

section \<open>Data model of the tool server (code/hw1.c, hw1/heap.c)\<close>

text \<open>
  The C \<open>int\<close> and \<open>long long\<close> values are modelled as unbounded \<open>int\<close>: array
  indices below 1024, counters and readings of a millisecond clock. The one place where the
  code narrows a value is the conversion \<open>(int)\<close> of a difference of two clock readings,
  and there the model reduces the value to 32 bits (\<open>int_cast\<close>). A C \<open>double\<close> is
  modelled as a \<open>real\<close>; rounding of the floating-point operations is not part of the
  model. Fixed-size C arrays are total functions from the index; the theorems state the
  index ranges in which the C code stays inside its arrays.
\<close>

definition NIL :: int where
  "NIL = -1"

definition MAX_NODES :: int where
  "MAX_NODES = 1024"

definition MAX_CUSTOMERS :: int where
  "MAX_CUSTOMERS = 1024"

definition LLONG_MAX :: int where
  "LLONG_MAX = 9223372036854775807"

datatype CustomerState =
  CUSTOMER_STATE_RESTING | CUSTOMER_STATE_WAITING | CUSTOMER_STATE_USING | CUSTOMER_STATE_DELETED

datatype EventType =
  EVENT_NONE | EVENT_TOOL_ASSIGNED | EVENT_TOOL_REMOVED | EVENT_TOOL_COMPLETED

record Node =
  key :: real
  heap_index :: int

record Customer =
  customer_id :: int
  is_allocated :: bool
  state :: CustomerState
  share :: real
  request_duration :: int
  remaining_duration :: int
  current_tool :: int
  session_start :: int
  wait_start :: int
  cust_heap_index :: int
  event_pending :: bool
  event_type :: EventType
  event_tool_id :: int

record ToolInfo =
  tool_id :: int
  total_usage :: int
  current_user :: int
  current_usage :: int
  tool_session_start :: int
  tool_should_exit :: bool

text \<open>
  \<open>SharedMemory\<close> is the shared region of hw1.c. The heap globals of heap.c point into
  it (\<open>GLB = shm->heap_nodes\<close>, \<open>HEAP_ARRAY = shm->heap_array\<close>,
  \<open>heap_size_ptr = &shm->heap_size_value\<close>), so the three fields carry the names heap.c
  uses. Two fields stand for the environment: \<open>stdout\<close> is the list of lines printed so
  far, and \<open>clock\<close> gives the successive readings of \<open>get_current_time_ms\<close>, of which
  \<open>clock_reads\<close> have been consumed.
\<close>

record SharedMemory =
  customers :: "int \<Rightarrow> Customer"
  free_customer_slots :: "int \<Rightarrow> int"
  free_customer_count :: int
  waiting_count :: int
  tools :: "int \<Rightarrow> ToolInfo"
  num_tools :: int
  total_customers :: int
  resting_customers :: int
  total_share :: real
  q :: int
  Q :: int
  start_time :: int
  server_should_exit :: bool
  GLB :: "int \<Rightarrow> Node"
  HEAP_ARRAY :: "int \<Rightarrow> int"
  heap_size :: int
  stdout :: "string list"
  clock :: "nat \<Rightarrow> int"
  clock_reads :: nat

section \<open>printf\<close>

fun show_nat :: "nat \<Rightarrow> string" where
  "show_nat n =
     (if n < 10 then [''0123456789'' ! n]
      else show_nat (n div 10) @ [''0123456789'' ! (n mod 10)])"

declare show_nat.simps [simp del]

text \<open>\<open>%d\<close> of printf.\<close>

definition show_int :: "int \<Rightarrow> string" where
  "show_int i = (if i < 0 then CHR ''-'' # show_nat (nat (- i)) else show_nat (nat i))"

text \<open>The cast \<open>(int)x\<close> of a double: truncation towards zero.\<close>

definition trunc_int :: "real \<Rightarrow> int" where
  "trunc_int x = (if 0 \<le> x then \<lfloor>x\<rfloor> else \<lceil>x\<rceil>)"

definition printf :: "string \<Rightarrow> SharedMemory \<Rightarrow> SharedMemory" where
  "printf line s = s\<lparr>stdout := stdout s @ [line]\<rparr>"

section \<open>The min-heap of heap.c\<close>

text \<open>\<open>(i - 1) / 2\<close> in C rounds towards zero.\<close>

definition heap_parent :: "int \<Rightarrow> int" where
  "heap_parent i = (i - 1) sdiv 2"

definition heap_left :: "int \<Rightarrow> int" where
  "heap_left i = (2 * i) + 1"

definition heap_right :: "int \<Rightarrow> int" where
  "heap_right i = (2 * i) + 2"

definition heap_swap :: "int \<Rightarrow> int \<Rightarrow> SharedMemory \<Rightarrow> SharedMemory" where
  "heap_swap i j s =
     (let node_i = HEAP_ARRAY s i;
          node_j = HEAP_ARRAY s j;
          s1 = s\<lparr>HEAP_ARRAY := (HEAP_ARRAY s)(i := node_j)\<rparr>;
          s2 = s1\<lparr>HEAP_ARRAY := (HEAP_ARRAY s1)(j := node_i)\<rparr>;
          s3 = s2\<lparr>GLB := (GLB s2)(node_i := (GLB s2 node_i)\<lparr>heap_index := j\<rparr>)\<rparr>
      in s3\<lparr>GLB := (GLB s3)(node_j := (GLB s3 node_j)\<lparr>heap_index := i\<rparr>)\<rparr>)"

text \<open>The key of the node at position \<open>i\<close> of the heap array: \<open>GLB[HEAP_ARRAY[i]].key\<close>.\<close>

definition hkey :: "SharedMemory \<Rightarrow> int \<Rightarrow> real" where
  "hkey s i = key (GLB s (HEAP_ARRAY s i))"

lemma heap_size_heap_swap [simp]: "heap_size (heap_swap i j s) = heap_size s"
  by (simp add: heap_swap_def Let_def)

text \<open>
  \<open>min_heapify\<close> is only ever called with a position \<open>0 \<le> i\<close>; below zero the C code
  would read in front of the array, and the model returns the state as it is.
\<close>

function min_heapify :: "int \<Rightarrow> SharedMemory \<Rightarrow> SharedMemory" where
  "min_heapify i s =
     (if i < 0 then s
      else
        let l = heap_left i;
            r = heap_right i;
            smallest = i;
            smallest = (if l < heap_size s \<and> hkey s l < hkey s smallest then l else smallest);
            smallest = (if r < heap_size s \<and> hkey s r < hkey s smallest then r else smallest)
        in if smallest \<noteq> i then min_heapify smallest (heap_swap i smallest s) else s)"
  by pat_completeness auto
termination
  by (relation "measure (\<lambda>(i, s). nat (heap_size s - i))")
     (auto simp: heap_left_def heap_right_def split: if_splits)

declare min_heapify.simps [simp del]

lemma heap_parent_pos: "0 < i \<Longrightarrow> heap_parent i = (i - 1) div 2"
  by (simp add: heap_parent_def signed_divide_int_def sgn_if)

function bubble_up :: "int \<Rightarrow> SharedMemory \<Rightarrow> SharedMemory" where
  "bubble_up i s =
     (if i > 0 \<and> hkey s (heap_parent i) > hkey s i
      then bubble_up (heap_parent i) (heap_swap i (heap_parent i) s)
      else s)"
  by pat_completeness auto
termination
  by (relation "measure (\<lambda>(i, s). nat i)")
     (auto simp: heap_parent_pos)

declare bubble_up.simps [simp del]

definition heap_insert :: "int \<Rightarrow> SharedMemory \<Rightarrow> int \<times> SharedMemory" where
  "heap_insert nodeindex s =
     (if heap_size s \<ge> MAX_NODES then (-1, printf ''HeapError: Heap is full.'' s)
      else if nodeindex < 0 \<or> nodeindex \<ge> MAX_NODES
      then (-1, printf (''HeapError: Invalid node index '' @ show_int nodeindex @ ''.'') s)
      else
        let s = (if key (GLB s nodeindex) = 0
                 then printf (''HeapError: Node '' @ show_int nodeindex
                                @ '' does not appear to be initialized.'') s
                 else s)
        in if heap_index (GLB s nodeindex) \<noteq> NIL
           then (-1, printf (''HeapError: Node '' @ show_int nodeindex
                               @ '' is already in the heap at index ''
                               @ show_int (heap_index (GLB s nodeindex)) @ ''.'') s)
           else
             let i = heap_size s;
                 s = s\<lparr>HEAP_ARRAY := (HEAP_ARRAY s)(i := nodeindex)\<rparr>;
                 s = s\<lparr>GLB := (GLB s)(nodeindex := (GLB s nodeindex)\<lparr>heap_index := i\<rparr>)\<rparr>;
                 s = s\<lparr>heap_size := heap_size s + 1\<rparr>
             in (0, bubble_up i s))"

definition heap_pop :: "SharedMemory \<Rightarrow> int \<times> SharedMemory" where
  "heap_pop s =
     (if heap_size s \<le> 0
      then (NIL, printf ''HeapError: Cannot pop from an empty heap.'' s)
      else
        let min_node_index = HEAP_ARRAY s 0;
            s = heap_swap 0 (heap_size s - 1) s;
            s = s\<lparr>heap_size := heap_size s - 1\<rparr>;
            s = s\<lparr>GLB := (GLB s)(min_node_index := (GLB s min_node_index)\<lparr>heap_index := NIL\<rparr>)\<rparr>;
            s = (if heap_size s > 0 then min_heapify 0 s else s)
        in (min_node_index, s))"

definition heap_delete :: "int \<Rightarrow> SharedMemory \<Rightarrow> int \<times> SharedMemory" where
  "heap_delete nodeindex s =
     (if nodeindex < 0 \<or> nodeindex \<ge> MAX_NODES \<or> heap_index (GLB s nodeindex) = NIL
      then (-1, printf (''HeapError: Node '' @ show_int nodeindex @ '' is not in the heap.'') s)
      else
        let i = heap_index (GLB s nodeindex);
            s = heap_swap i (heap_size s - 1) s;
            s = s\<lparr>heap_size := heap_size s - 1\<rparr>;
            s = s\<lparr>GLB := (GLB s)(nodeindex := (GLB s nodeindex)\<lparr>heap_index := NIL\<rparr>)\<rparr>;
            s = (if i < heap_size s
                 then (if i > 0 \<and> hkey s i < hkey s (heap_parent i)
                       then bubble_up i s
                       else min_heapify i s)
                 else s)
        in (0, s))"

section \<open>Heap invariants\<close>

text \<open>A node is in the heap when its back-pointer is not \<open>NIL\<close>.\<close>

definition in_heap :: "SharedMemory \<Rightarrow> int \<Rightarrow> bool" where
  "in_heap s n = (heap_index (GLB s n) \<noteq> NIL)"

text \<open>
  Back-map consistency: every position of the heap array holds a node index in range whose
  back-pointer is that position, and the back-pointer of every node that is in the heap is a
  position of the heap array holding that node.
\<close>

definition heap_wf :: "SharedMemory \<Rightarrow> bool" where
  "heap_wf s =
     (0 \<le> heap_size s \<and> heap_size s \<le> MAX_NODES \<and>
      (\<forall>i\<in>{0..<heap_size s}.
          0 \<le> HEAP_ARRAY s i \<and> HEAP_ARRAY s i < MAX_NODES \<and>
          heap_index (GLB s (HEAP_ARRAY s i)) = i) \<and>
      (\<forall>n\<in>{0..<MAX_NODES}.
          heap_index (GLB s n) \<noteq> NIL \<longrightarrow>
          0 \<le> heap_index (GLB s n) \<and> heap_index (GLB s n) < heap_size s \<and>
          HEAP_ARRAY s (heap_index (GLB s n)) = n))"

text \<open>The min-heap property: no node has a key below its parent's.\<close>

definition min_heap :: "SharedMemory \<Rightarrow> bool" where
  "min_heap s = (\<forall>i\<in>{1..<heap_size s}. hkey s (heap_parent i) \<le> hkey s i)"

lemma HEAP_ARRAY_heap_swap:
  "HEAP_ARRAY (heap_swap i j s) k =
     (if k = j then HEAP_ARRAY s i else if k = i then HEAP_ARRAY s j else HEAP_ARRAY s k)"
  by (simp add: heap_swap_def Let_def)

lemma key_heap_swap [simp]: "key (GLB (heap_swap i j s) n) = key (GLB s n)"
  by (simp add: heap_swap_def Let_def)

lemma heap_index_heap_swap:
  "heap_index (GLB (heap_swap i j s) n) =
     (if n = HEAP_ARRAY s j then i else if n = HEAP_ARRAY s i then j else heap_index (GLB s n))"
  by (simp add: heap_swap_def Let_def)

lemma hkey_heap_swap:
  "hkey (heap_swap i j s) k = (if k = j then hkey s i else if k = i then hkey s j else hkey s k)"
  by (simp add: hkey_def HEAP_ARRAY_heap_swap)

lemma heap_wf_pos:
  assumes "heap_wf s" "0 \<le> a" "a < heap_size s"
  shows "heap_index (GLB s (HEAP_ARRAY s a)) = a" "0 \<le> HEAP_ARRAY s a" "HEAP_ARRAY s a < MAX_NODES"
  using assms by (auto simp: heap_wf_def)

lemma heap_wf_node:
  assumes "heap_wf s" "0 \<le> n" "n < MAX_NODES" "heap_index (GLB s n) \<noteq> NIL"
  shows "0 \<le> heap_index (GLB s n)" "heap_index (GLB s n) < heap_size s"
    "HEAP_ARRAY s (heap_index (GLB s n)) = n"
  using assms by (auto simp: heap_wf_def)

lemma heap_wf_inj:
  assumes "heap_wf s" "0 \<le> a" "a < heap_size s" "0 \<le> b" "b < heap_size s"
    "HEAP_ARRAY s a = HEAP_ARRAY s b"
  shows "a = b"
proof -
  have "a = heap_index (GLB s (HEAP_ARRAY s a))"
    by (rule heap_wf_pos(1) [OF assms(1,2,3), symmetric])
  also have "\<dots> = heap_index (GLB s (HEAP_ARRAY s b))"
    by (rule arg_cong [OF assms(6)])
  also have "\<dots> = b"
    by (rule heap_wf_pos(1) [OF assms(1,4,5)])
  finally show ?thesis .
qed

lemma heap_wf_heap_swap:
  assumes wf: "heap_wf s" and i: "0 \<le> i" "i < heap_size s" and j: "0 \<le> j" "j < heap_size s"
  shows "heap_wf (heap_swap i j s)"
proof -
  have inj: "\<And>a b. 0 \<le> a \<Longrightarrow> a < heap_size s \<Longrightarrow> 0 \<le> b \<Longrightarrow> b < heap_size s
      \<Longrightarrow> HEAP_ARRAY s a = HEAP_ARRAY s b \<Longrightarrow> a = b"
    using heap_wf_inj [OF wf] by blast
  have sz: "0 \<le> heap_size s" "heap_size s \<le> MAX_NODES"
    using wf by (auto simp: heap_wf_def)
  have pos: "0 \<le> HEAP_ARRAY (heap_swap i j s) k \<and> HEAP_ARRAY (heap_swap i j s) k < MAX_NODES \<and>
      heap_index (GLB (heap_swap i j s) (HEAP_ARRAY (heap_swap i j s) k)) = k"
    if k: "0 \<le> k" "k < heap_size s" for k
  proof -
    consider "k = j" | "k \<noteq> j" "k = i" | "k \<noteq> j" "k \<noteq> i" by blast
    then show ?thesis
    proof cases
      case 1
      then show ?thesis
        using heap_wf_pos [OF wf i] inj [OF i j]
        by (auto simp: HEAP_ARRAY_heap_swap heap_index_heap_swap)
    next
      case 2
      then show ?thesis
        using heap_wf_pos [OF wf j]
        by (auto simp: HEAP_ARRAY_heap_swap heap_index_heap_swap)
    next
      case 3
      then show ?thesis
        using heap_wf_pos [OF wf k] inj [OF k j] inj [OF k i]
        by (auto simp: HEAP_ARRAY_heap_swap heap_index_heap_swap)
    qed
  qed
  have node: "0 \<le> heap_index (GLB (heap_swap i j s) n) \<and>
      heap_index (GLB (heap_swap i j s) n) < heap_size s \<and>
      HEAP_ARRAY (heap_swap i j s) (heap_index (GLB (heap_swap i j s) n)) = n"
    if n: "0 \<le> n" "n < MAX_NODES" "heap_index (GLB (heap_swap i j s) n) \<noteq> NIL" for n
  proof -
    consider "n = HEAP_ARRAY s j" | "n \<noteq> HEAP_ARRAY s j" "n = HEAP_ARRAY s i"
      | "n \<noteq> HEAP_ARRAY s j" "n \<noteq> HEAP_ARRAY s i" by blast
    then show ?thesis
    proof cases
      case 1
      then show ?thesis using i by (auto simp: HEAP_ARRAY_heap_swap heap_index_heap_swap)
    next
      case 2
      then show ?thesis using j by (auto simp: HEAP_ARRAY_heap_swap heap_index_heap_swap)
    next
      case 3
      then have "heap_index (GLB s n) \<noteq> NIL" using n(3) by (simp add: heap_index_heap_swap)
      from heap_wf_node [OF wf n(1,2) this] 3 show ?thesis
        by (auto simp: HEAP_ARRAY_heap_swap heap_index_heap_swap)
    qed
  qed
  show ?thesis
    unfolding heap_wf_def using sz pos node by simp
qed

lemma in_heap_heap_swap:
  assumes "heap_wf s" "0 \<le> i" "i < heap_size s" "0 \<le> j" "j < heap_size s"
  shows "in_heap (heap_swap i j s) n = in_heap s n"
  using assms unfolding heap_wf_def in_heap_def
  by (auto simp: heap_index_heap_swap NIL_def)

definition up_ok :: "SharedMemory \<Rightarrow> int \<Rightarrow> bool" where
  "up_ok s i =
     ((\<forall>k\<in>{1..<heap_size s}. k \<noteq> i \<longrightarrow> hkey s ((k - 1) div 2) \<le> hkey s k) \<and>
      (\<forall>k\<in>{1..<heap_size s}. (k - 1) div 2 = i \<and> 1 \<le> i \<longrightarrow> hkey s ((i - 1) div 2) \<le> hkey s k))"

lemma min_heap_alt: "min_heap s = (\<forall>k\<in>{1..<heap_size s}. hkey s ((k - 1) div 2) \<le> hkey s k)"
  by (simp add: min_heap_def heap_parent_pos)

lemma up_ok_step:
  assumes "up_ok s i" "0 < i" "i < heap_size s" "hkey s i < hkey s ((i - 1) div 2)"
  shows "up_ok (heap_swap i ((i - 1) div 2) s) ((i - 1) div 2)"
proof -
  define p where "p = (i - 1) div 2"
  have p: "0 \<le> p" "p < i" using assms(2) by (auto simp: p_def)
  have A: "\<And>k. 1 \<le> k \<Longrightarrow> k < heap_size s \<Longrightarrow> k \<noteq> i \<Longrightarrow> hkey s ((k - 1) div 2) \<le> hkey s k"
    using assms(1) by (auto simp: up_ok_def)
  have B: "\<And>k. 1 \<le> k \<Longrightarrow> k < heap_size s \<Longrightarrow> (k - 1) div 2 = i \<Longrightarrow> hkey s p \<le> hkey s k"
    using assms(1,2) by (auto simp: up_ok_def p_def)
  have lt: "hkey s i < hkey s p" using assms(4) by (simp add: p_def)
  have 1: "hkey (heap_swap i p s) ((k - 1) div 2) \<le> hkey (heap_swap i p s) k"
    if k: "1 \<le> k" "k < heap_size s" "k \<noteq> p" for k
  proof (cases "k = i")
    case True
    then show ?thesis using lt p by (simp add: hkey_heap_swap p_def)
  next
    case False
    have kk: "(k - 1) div 2 < k" using k by auto
    show ?thesis
    proof (cases "(k - 1) div 2 = i")
      case True
      then show ?thesis using B [OF k(1,2) True] False k p by (simp add: hkey_heap_swap)
    next
      case ni: False
      show ?thesis
      proof (cases "(k - 1) div 2 = p")
        case True
        then show ?thesis using A [OF k(1,2) False] False k lt ni by (simp add: hkey_heap_swap)
      next
        case False
        then show ?thesis using A [OF k(1,2) \<open>k \<noteq> i\<close>] \<open>k \<noteq> i\<close> k ni
          by (simp add: hkey_heap_swap)
      qed
    qed
  qed
  have 2: "hkey (heap_swap i p s) ((p - 1) div 2) \<le> hkey (heap_swap i p s) k"
    if k: "1 \<le> k" "k < heap_size s" "(k - 1) div 2 = p" "1 \<le> p" for k
  proof -
    have pp: "(p - 1) div 2 < p" using k(4) by auto
    have ppi: "(p - 1) div 2 \<noteq> i" "(p - 1) div 2 \<noteq> p" using pp p by auto
    have kp: "k \<noteq> p" using k by auto
    have le: "hkey s ((p - 1) div 2) \<le> hkey s p"
      using A [of p] k(4) p assms(3) by auto
    show ?thesis
    proof (cases "k = i")
      case True
      then show ?thesis using le ppi p by (simp add: hkey_heap_swap)
    next
      case False
      then show ?thesis using A [OF k(1,2) False] k(3) le ppi kp by (simp add: hkey_heap_swap)
    qed
  qed
  show ?thesis
    unfolding up_ok_def p_def [symmetric] using 1 2 by auto
qed

lemma up_ok_done:
  assumes "up_ok s i" "\<not> (i > 0 \<and> hkey s (heap_parent i) > hkey s i)"
  shows "min_heap s"
  unfolding min_heap_alt
proof
  fix k assume k: "k \<in> {1..<heap_size s}"
  show "hkey s ((k - 1) div 2) \<le> hkey s k"
  proof (cases "k = i")
    case True
    then show ?thesis using assms(2) k by (auto simp: heap_parent_pos)
  next
    case False
    then show ?thesis using assms(1) k by (auto simp: up_ok_def)
  qed
qed

lemma bubble_up_unfold_True:
  "0 < i \<and> hkey s i < hkey s (heap_parent i) \<Longrightarrow>
   bubble_up i s = bubble_up (heap_parent i) (heap_swap i (heap_parent i) s)"
  by (subst bubble_up.simps) (erule if_P)

lemma bubble_up_unfold_False:
  "\<not> (0 < i \<and> hkey s i < hkey s (heap_parent i)) \<Longrightarrow> bubble_up i s = s"
  by (subst bubble_up.simps) (erule if_not_P)

lemma min_heap_bubble_up:
  "up_ok s i \<Longrightarrow> i < heap_size s \<Longrightarrow> min_heap (bubble_up i s)"
proof (induction i s rule: bubble_up.induct)
  case (1 i s)
  show ?case
  proof (cases "0 < i \<and> hkey s i < hkey s (heap_parent i)")
    case True
    have hp: "heap_parent i = (i - 1) div 2" using True by (simp add: heap_parent_pos)
    have a: "up_ok (heap_swap i (heap_parent i) s) (heap_parent i)"
      unfolding hp by (rule up_ok_step [OF "1.prems"(1) _ "1.prems"(2)]) (use True hp in auto)
    have b: "heap_parent i < heap_size (heap_swap i (heap_parent i) s)"
      unfolding hp using True "1.prems"(2) by auto
    show ?thesis
      unfolding bubble_up_unfold_True [OF True] by (rule "1.IH" [OF True a b])
  next
    case False
    show ?thesis
      unfolding bubble_up_unfold_False [OF False] by (rule up_ok_done [OF "1.prems"(1) False])
  qed
qed

lemma heap_wf_bubble_up:
  "heap_wf s \<Longrightarrow> 0 \<le> i \<Longrightarrow> i < heap_size s \<Longrightarrow> heap_wf (bubble_up i s)"
proof (induction i s rule: bubble_up.induct)
  case (1 i s)
  show ?case
  proof (cases "0 < i \<and> hkey s i < hkey s (heap_parent i)")
    case True
    have hp: "heap_parent i = (i - 1) div 2" using True by (simp add: heap_parent_pos)
    have p: "0 \<le> heap_parent i" "heap_parent i < heap_size s"
      unfolding hp using True "1.prems" by auto
    have a: "heap_wf (heap_swap i (heap_parent i) s)"
      by (rule heap_wf_heap_swap [OF "1.prems"(1,2,3) p])
    have b: "heap_parent i < heap_size (heap_swap i (heap_parent i) s)"
      using p by simp
    show ?thesis
      unfolding bubble_up_unfold_True [OF True] by (rule "1.IH" [OF True a p(1) b])
  next
    case False
    show ?thesis
      unfolding bubble_up_unfold_False [OF False] by (rule "1.prems"(1))
  qed
qed

lemma in_heap_bubble_up:
  "heap_wf s \<Longrightarrow> 0 \<le> i \<Longrightarrow> i < heap_size s \<Longrightarrow> in_heap (bubble_up i s) n = in_heap s n"
proof (induction i s rule: bubble_up.induct)
  case (1 i s)
  show ?case
  proof (cases "0 < i \<and> hkey s i < hkey s (heap_parent i)")
    case True
    have hp: "heap_parent i = (i - 1) div 2" using True by (simp add: heap_parent_pos)
    have p: "0 \<le> heap_parent i" "heap_parent i < heap_size s"
      unfolding hp using True "1.prems" by auto
    have a: "heap_wf (heap_swap i (heap_parent i) s)"
      by (rule heap_wf_heap_swap [OF "1.prems"(1,2,3) p])
    have b: "heap_parent i < heap_size (heap_swap i (heap_parent i) s)"
      using p by simp
    have "in_heap (bubble_up i s) n = in_heap (heap_swap i (heap_parent i) s) n"
      unfolding bubble_up_unfold_True [OF True] by (rule "1.IH" [OF True a p(1) b])
    also have "\<dots> = in_heap s n"
      by (rule in_heap_heap_swap [OF "1.prems"(1,2,3) p])
    finally show ?thesis .
  next
    case False
    show ?thesis
      unfolding bubble_up_unfold_False [OF False] by (rule refl)
  qed
qed

lemma key_bubble_up [simp]: "key (GLB (bubble_up i s) n) = key (GLB s n)"
proof (induction i s rule: bubble_up.induct)
  case (1 i s)
  show ?case
  proof (cases "0 < i \<and> hkey s i < hkey s (heap_parent i)")
    case True
    show ?thesis
      unfolding bubble_up_unfold_True [OF True] using "1.IH" [OF True] by simp
  next
    case False
    show ?thesis
      unfolding bubble_up_unfold_False [OF False] by (rule refl)
  qed
qed

lemma heap_size_bubble_up [simp]: "heap_size (bubble_up i s) = heap_size s"
proof (induction i s rule: bubble_up.induct)
  case (1 i s)
  show ?case
  proof (cases "0 < i \<and> hkey s i < hkey s (heap_parent i)")
    case True
    show ?thesis
      unfolding bubble_up_unfold_True [OF True] using "1.IH" [OF True] by simp
  next
    case False
    show ?thesis
      unfolding bubble_up_unfold_False [OF False] by (rule refl)
  qed
qed

text \<open>The position \<open>smallest\<close> that \<open>min_heapify\<close> computes.\<close>

definition heapify_smallest :: "SharedMemory \<Rightarrow> int \<Rightarrow> int" where
  "heapify_smallest s i =
     (let l = heap_left i;
          r = heap_right i;
          smallest = i;
          smallest = (if l < heap_size s \<and> hkey s l < hkey s smallest then l else smallest);
          smallest = (if r < heap_size s \<and> hkey s r < hkey s smallest then r else smallest)
      in smallest)"

definition down_ok :: "SharedMemory \<Rightarrow> int \<Rightarrow> bool" where
  "down_ok s i =
     ((\<forall>k\<in>{1..<heap_size s}. (k - 1) div 2 \<noteq> i \<longrightarrow> hkey s ((k - 1) div 2) \<le> hkey s k) \<and>
      (\<forall>k\<in>{1..<heap_size s}. (k - 1) div 2 = i \<and> 1 \<le> i \<longrightarrow> hkey s ((i - 1) div 2) \<le> hkey s k))"

lemma min_heapify_unfold_swap:
  "0 \<le> i \<Longrightarrow> heapify_smallest s i \<noteq> i \<Longrightarrow>
   min_heapify i s = min_heapify (heapify_smallest s i) (heap_swap i (heapify_smallest s i) s)"
  by (subst min_heapify.simps) (simp add: heapify_smallest_def Let_def)

lemma min_heapify_unfold_stop:
  "0 \<le> i \<Longrightarrow> heapify_smallest s i = i \<Longrightarrow> min_heapify i s = s"
  by (subst min_heapify.simps) (simp add: heapify_smallest_def Let_def)

lemma min_heapify_unfold_neg: "i < 0 \<Longrightarrow> min_heapify i s = s"
  by (subst min_heapify.simps) simp

lemma heapify_smallest_cases:
  "heapify_smallest s i = i \<or>
   (heapify_smallest s i = 2 * i + 1 \<or> heapify_smallest s i = 2 * i + 2) \<and>
   heapify_smallest s i < heap_size s \<and> hkey s (heapify_smallest s i) < hkey s i"
  by (auto simp: heapify_smallest_def Let_def heap_left_def heap_right_def)

lemma heapify_smallest_le:
  "hkey s (heapify_smallest s i) \<le> hkey s i"
  "2 * i + 1 < heap_size s \<Longrightarrow> hkey s (heapify_smallest s i) \<le> hkey s (2 * i + 1)"
  "2 * i + 2 < heap_size s \<Longrightarrow> hkey s (heapify_smallest s i) \<le> hkey s (2 * i + 2)"
  by (auto simp: heapify_smallest_def Let_def heap_left_def heap_right_def)

lemma child_cases: "(1::int) \<le> k \<Longrightarrow> (k - 1) div 2 = i \<Longrightarrow> k = 2 * i + 1 \<or> k = 2 * i + 2"
  by auto

lemma down_ok_done:
  assumes "down_ok s i" "0 \<le> i" "heapify_smallest s i = i"
  shows "min_heap s"
  unfolding min_heap_alt
proof
  fix k assume k: "k \<in> {1..<heap_size s}"
  show "hkey s ((k - 1) div 2) \<le> hkey s k"
  proof (cases "(k - 1) div 2 = i")
    case True
    then have "k = 2 * i + 1 \<or> k = 2 * i + 2" using k child_cases by simp
    then show ?thesis
      using heapify_smallest_le(2,3) [of i s] k True assms(3) by auto
  next
    case False
    then show ?thesis using assms(1) k by (auto simp: down_ok_def)
  qed
qed

lemma down_ok_step:
  assumes "down_ok s i" "0 \<le> i" "heapify_smallest s i \<noteq> i"
  shows "down_ok (heap_swap i (heapify_smallest s i) s) (heapify_smallest s i)"
proof -
  define m where "m = heapify_smallest s i"
  have m: "m = 2 * i + 1 \<or> m = 2 * i + 2" "m < heap_size s" "hkey s m < hkey s i"
    using heapify_smallest_cases [of s i] assms(3) by (auto simp: m_def)
  have mi: "(m - 1) div 2 = i" "i < m" "1 \<le> m" using m(1) assms(2) by auto
  have le: "2 * i + 1 < heap_size s \<Longrightarrow> hkey s m \<le> hkey s (2 * i + 1)"
    "2 * i + 2 < heap_size s \<Longrightarrow> hkey s m \<le> hkey s (2 * i + 2)"
    using heapify_smallest_le(2,3) [of i s] by (auto simp: m_def)
  have A: "\<And>k. 1 \<le> k \<Longrightarrow> k < heap_size s \<Longrightarrow> (k - 1) div 2 \<noteq> i \<Longrightarrow> hkey s ((k - 1) div 2) \<le> hkey s k"
    using assms(1) by (auto simp: down_ok_def)
  have B: "\<And>k. 1 \<le> k \<Longrightarrow> k < heap_size s \<Longrightarrow> (k - 1) div 2 = i \<Longrightarrow> 1 \<le> i \<Longrightarrow> hkey s ((i - 1) div 2) \<le> hkey s k"
    using assms(1) by (auto simp: down_ok_def)
  have 1: "hkey (heap_swap i m s) ((k - 1) div 2) \<le> hkey (heap_swap i m s) k"
    if k: "1 \<le> k" "k < heap_size s" "(k - 1) div 2 \<noteq> m" for k
  proof (cases "(k - 1) div 2 = i")
    case True
    then have kc: "k = 2 * i + 1 \<or> k = 2 * i + 2" using k child_cases by simp
    have ki: "k \<noteq> i" using kc assms(2) by auto
    show ?thesis
    proof (cases "k = m")
      case km: True
      then show ?thesis using True m(3) mi by (simp add: hkey_heap_swap)
    next
      case False
      then show ?thesis using True kc le k(2) ki mi by (auto simp: hkey_heap_swap)
    qed
  next
    case False
    have km: "k \<noteq> m" using False mi by auto
    show ?thesis
    proof (cases "k = i")
      case True
      then have "1 \<le> i" using k by simp
      then have "hkey s ((i - 1) div 2) \<le> hkey s m" using B [of m] m(2) mi by auto
      moreover have "(i - 1) div 2 \<noteq> i" "(i - 1) div 2 \<noteq> m" using \<open>1 \<le> i\<close> mi by auto
      ultimately show ?thesis using True mi by (simp add: hkey_heap_swap)
    next
      case ki: False
      then show ?thesis using A [OF k(1,2) False] False k(3) km by (simp add: hkey_heap_swap)
    qed
  qed
  have 2: "hkey (heap_swap i m s) ((m - 1) div 2) \<le> hkey (heap_swap i m s) k"
    if k: "1 \<le> k" "k < heap_size s" "(k - 1) div 2 = m" for k
  proof -
    have "k \<noteq> i" "k \<noteq> m" using k mi by auto
    moreover have "hkey s m \<le> hkey s k" using A [OF k(1,2)] k(3) mi by auto
    ultimately show ?thesis using mi by (simp add: hkey_heap_swap)
  qed
  show ?thesis
    unfolding down_ok_def m_def [symmetric] using 1 2 by auto
qed

lemma min_heapify_induct [case_names step]:
  assumes "\<And>i s. (0 \<le> i \<Longrightarrow> heapify_smallest s i \<noteq> i \<Longrightarrow>
              P (heapify_smallest s i) (heap_swap i (heapify_smallest s i) s)) \<Longrightarrow> P i s"
  shows "P i s"
proof (induction i s rule: min_heapify.induct)
  case (1 i s)
  show ?case
  proof (rule assms)
    assume "0 \<le> i" "heapify_smallest s i \<noteq> i"
    then show "P (heapify_smallest s i) (heap_swap i (heapify_smallest s i) s)"
      using "1.IH" [OF _ refl refl refl refl refl] by (simp add: heapify_smallest_def Let_def)
  qed
qed

lemma heapify_smallest_range:
  assumes "0 \<le> i" "i < heap_size s"
  shows "0 \<le> heapify_smallest s i" "heapify_smallest s i < heap_size s" "i \<le> heapify_smallest s i"
  using heapify_smallest_cases [of s i] assms by auto

lemma min_heap_min_heapify:
  "down_ok s i \<Longrightarrow> 0 \<le> i \<Longrightarrow> min_heap (min_heapify i s)"
proof (induction i s rule: min_heapify_induct)
  case (step i s)
  show ?case
  proof (cases "heapify_smallest s i = i")
    case True
    show ?thesis
      unfolding min_heapify_unfold_stop [OF step.prems(2) True]
      by (rule down_ok_done [OF step.prems True])
  next
    case False
    have "0 \<le> heapify_smallest s i"
      using heapify_smallest_cases [of s i] step.prems(2) by auto
    then show ?thesis
      unfolding min_heapify_unfold_swap [OF step.prems(2) False]
      by (rule step.IH [OF step.prems(2) False down_ok_step [OF step.prems False]])
  qed
qed

lemma heap_wf_min_heapify:
  "heap_wf s \<Longrightarrow> 0 \<le> i \<Longrightarrow> i < heap_size s \<Longrightarrow> heap_wf (min_heapify i s)"
proof (induction i s rule: min_heapify_induct)
  case (step i s)
  note r = heapify_smallest_range [OF step.prems(2,3)]
  show ?case
  proof (cases "heapify_smallest s i = i")
    case True
    show ?thesis
      unfolding min_heapify_unfold_stop [OF step.prems(2) True] by (rule step.prems(1))
  next
    case False
    have a: "heap_wf (heap_swap i (heapify_smallest s i) s)"
      by (rule heap_wf_heap_swap [OF step.prems r(1,2)])
    have b: "heapify_smallest s i < heap_size (heap_swap i (heapify_smallest s i) s)"
      using r(2) by simp
    show ?thesis
      unfolding min_heapify_unfold_swap [OF step.prems(2) False]
      by (rule step.IH [OF step.prems(2) False a r(1) b])
  qed
qed

lemma in_heap_min_heapify:
  "heap_wf s \<Longrightarrow> 0 \<le> i \<Longrightarrow> i < heap_size s \<Longrightarrow> in_heap (min_heapify i s) n = in_heap s n"
proof (induction i s rule: min_heapify_induct)
  case (step i s)
  note r = heapify_smallest_range [OF step.prems(2,3)]
  show ?case
  proof (cases "heapify_smallest s i = i")
    case True
    show ?thesis
      unfolding min_heapify_unfold_stop [OF step.prems(2) True] by (rule refl)
  next
    case False
    have a: "heap_wf (heap_swap i (heapify_smallest s i) s)"
      by (rule heap_wf_heap_swap [OF step.prems r(1,2)])
    have b: "heapify_smallest s i < heap_size (heap_swap i (heapify_smallest s i) s)"
      using r(2) by simp
    have "in_heap (min_heapify i s) n = in_heap (heap_swap i (heapify_smallest s i) s) n"
      unfolding min_heapify_unfold_swap [OF step.prems(2) False]
      by (rule step.IH [OF step.prems(2) False a r(1) b])
    also have "\<dots> = in_heap s n"
      by (rule in_heap_heap_swap [OF step.prems r(1,2)])
    finally show ?thesis .
  qed
qed

lemma key_min_heapify [simp]: "key (GLB (min_heapify i s) n) = key (GLB s n)"
proof (induction i s rule: min_heapify_induct)
  case (step i s)
  show ?case
  proof (cases "0 \<le> i \<and> heapify_smallest s i \<noteq> i")
    case True
    then show ?thesis
      using min_heapify_unfold_swap [of i s] step.IH by simp
  next
    case False
    then show ?thesis
      using min_heapify_unfold_stop [of i s] min_heapify_unfold_neg [of i s] by (cases "i < 0") auto
  qed
qed

lemma heap_size_min_heapify [simp]: "heap_size (min_heapify i s) = heap_size s"
proof (induction i s rule: min_heapify_induct)
  case (step i s)
  show ?case
  proof (cases "0 \<le> i \<and> heapify_smallest s i \<noteq> i")
    case True
    then show ?thesis
      using min_heapify_unfold_swap [of i s] step.IH by simp
  next
    case False
    then show ?thesis
      using min_heapify_unfold_stop [of i s] min_heapify_unfold_neg [of i s] by (cases "i < 0") auto
  qed
qed

text \<open>The heap operations leave every field of the scheduler proper as it is.\<close>

definition sched_frame :: "SharedMemory \<Rightarrow> SharedMemory \<Rightarrow> bool" where
  "sched_frame s s' =
     (customers s' = customers s \<and> free_customer_slots s' = free_customer_slots s \<and>
      free_customer_count s' = free_customer_count s \<and> waiting_count s' = waiting_count s \<and>
      tools s' = tools s \<and> num_tools s' = num_tools s \<and>
      total_customers s' = total_customers s \<and> resting_customers s' = resting_customers s \<and>
      total_share s' = total_share s \<and> q s' = q s \<and> Q s' = Q s \<and>
      start_time s' = start_time s \<and> server_should_exit s' = server_should_exit s \<and>
      clock s' = clock s \<and> clock_reads s' = clock_reads s)"

lemma sched_frame_refl [simp]: "sched_frame s s"
  by (simp add: sched_frame_def)

lemma sched_frame_trans: "sched_frame s s' \<Longrightarrow> sched_frame s' s'' \<Longrightarrow> sched_frame s s''"
  by (simp add: sched_frame_def)

lemma sched_frame_heap_swap [simp]: "sched_frame s (heap_swap i j s)"
  by (simp add: sched_frame_def heap_swap_def Let_def)

lemma stdout_heap_swap [simp]: "stdout (heap_swap i j s) = stdout s"
  by (simp add: heap_swap_def Let_def)

lemma sched_frame_bubble_up [simp]: "sched_frame s (bubble_up i s)"
proof (induction i s rule: bubble_up.induct)
  case (1 i s)
  show ?case
  proof (cases "0 < i \<and> hkey s i < hkey s (heap_parent i)")
    case True
    show ?thesis
      unfolding bubble_up_unfold_True [OF True]
      by (rule sched_frame_trans [OF sched_frame_heap_swap "1.IH" [OF True]])
  next
    case False
    show ?thesis
      unfolding bubble_up_unfold_False [OF False] by (rule sched_frame_refl)
  qed
qed

lemma stdout_bubble_up [simp]: "stdout (bubble_up i s) = stdout s"
proof (induction i s rule: bubble_up.induct)
  case (1 i s)
  show ?case
  proof (cases "0 < i \<and> hkey s i < hkey s (heap_parent i)")
    case True
    show ?thesis
      unfolding bubble_up_unfold_True [OF True] using "1.IH" [OF True] by simp
  next
    case False
    show ?thesis
      unfolding bubble_up_unfold_False [OF False] by (rule refl)
  qed
qed

lemma sched_frame_min_heapify [simp]: "sched_frame s (min_heapify i s)"
proof (induction i s rule: min_heapify_induct)
  case (step i s)
  show ?case
  proof (cases "0 \<le> i \<and> heapify_smallest s i \<noteq> i")
    case True
    then show ?thesis
      using min_heapify_unfold_swap [of i s] step.IH
        sched_frame_trans [OF sched_frame_heap_swap [of s i "heapify_smallest s i"]]
      by simp
  next
    case False
    then show ?thesis
      using min_heapify_unfold_stop [of i s] min_heapify_unfold_neg [of i s] by (cases "i < 0") auto
  qed
qed

lemma stdout_min_heapify [simp]: "stdout (min_heapify i s) = stdout s"
proof (induction i s rule: min_heapify_induct)
  case (step i s)
  show ?case
  proof (cases "0 \<le> i \<and> heapify_smallest s i \<noteq> i")
    case True
    then show ?thesis
      using min_heapify_unfold_swap [of i s] step.IH by simp
  next
    case False
    then show ?thesis
      using min_heapify_unfold_stop [of i s] min_heapify_unfold_neg [of i s] by (cases "i < 0") auto
  qed
qed

lemma heap_wf_stdout [simp]: "heap_wf (s\<lparr>stdout := x\<rparr>) = heap_wf s"
  by (simp add: heap_wf_def)

lemma min_heap_stdout [simp]: "min_heap (s\<lparr>stdout := x\<rparr>) = min_heap s"
  by (simp add: min_heap_def hkey_def)

lemma in_heap_stdout [simp]: "in_heap (s\<lparr>stdout := x\<rparr>) n = in_heap s n"
  by (simp add: in_heap_def)

text \<open>
  The common part of \<open>heap_pop\<close> and \<open>heap_delete\<close>: after the swap with the last position,
  the size is decreased and the removed node is marked as not in the heap.
\<close>

definition drop_last :: "int \<Rightarrow> SharedMemory \<Rightarrow> SharedMemory" where
  "drop_last n s =
     s\<lparr>heap_size := heap_size s - 1, GLB := (GLB s)(n := (GLB s n)\<lparr>heap_index := NIL\<rparr>)\<rparr>"

definition remove_at :: "int \<Rightarrow> SharedMemory \<Rightarrow> SharedMemory" where
  "remove_at i s = drop_last (HEAP_ARRAY s i) (heap_swap i (heap_size s - 1) s)"

lemma heap_size_remove_at [simp]: "heap_size (remove_at i s) = heap_size s - 1"
  by (simp add: remove_at_def drop_last_def)

lemma key_remove_at [simp]: "key (GLB (remove_at i s) n) = key (GLB s n)"
  by (simp add: remove_at_def drop_last_def)

lemma stdout_remove_at [simp]: "stdout (remove_at i s) = stdout s"
  by (simp add: remove_at_def drop_last_def)

lemma sched_frame_remove_at [simp]: "sched_frame s (remove_at i s)"
  using sched_frame_heap_swap [of s i "heap_size s - 1"]
  by (simp add: remove_at_def drop_last_def sched_frame_def)

lemma HEAP_ARRAY_remove_at:
  "HEAP_ARRAY (remove_at i s) k = HEAP_ARRAY (heap_swap i (heap_size s - 1) s) k"
  by (simp add: remove_at_def drop_last_def)

lemma heap_index_remove_at:
  "heap_index (GLB (remove_at i s) n) =
     (if n = HEAP_ARRAY s i then NIL else heap_index (GLB (heap_swap i (heap_size s - 1) s) n))"
  by (simp add: remove_at_def drop_last_def)

lemma hkey_remove_at:
  "hkey (remove_at i s) k = (if k = heap_size s - 1 then hkey s i
     else if k = i then hkey s (heap_size s - 1) else hkey s k)"
  by (simp add: hkey_def HEAP_ARRAY_remove_at HEAP_ARRAY_heap_swap)

lemma heap_wf_remove_at:
  assumes wf: "heap_wf s" and i: "0 \<le> i" "i < heap_size s"
  shows "heap_wf (remove_at i s)"
proof -
  define l where "l = heap_size s - 1"
  have l: "0 \<le> l" "l < heap_size s" using i by (auto simp: l_def)
  have wf1: "heap_wf (heap_swap i l s)" by (rule heap_wf_heap_swap [OF wf i l])
  have last: "HEAP_ARRAY (heap_swap i l s) l = HEAP_ARRAY s i"
    by (simp add: HEAP_ARRAY_heap_swap)
  have sz: "0 \<le> heap_size s - 1" "heap_size s - 1 \<le> MAX_NODES"
    using wf i by (auto simp: heap_wf_def)
  have pos: "0 \<le> HEAP_ARRAY (remove_at i s) k \<and> HEAP_ARRAY (remove_at i s) k < MAX_NODES \<and>
      heap_index (GLB (remove_at i s) (HEAP_ARRAY (remove_at i s) k)) = k"
    if k: "0 \<le> k" "k < heap_size s - 1" for k
  proof -
    have k': "k < heap_size (heap_swap i l s)" "l < heap_size (heap_swap i l s)"
      using k l by simp_all
    have "HEAP_ARRAY (heap_swap i l s) k \<noteq> HEAP_ARRAY (heap_swap i l s) l"
      using heap_wf_inj [OF wf1 k(1) k'(1) l(1) k'(2)] k by (auto simp: l_def)
    then have ne: "HEAP_ARRAY (heap_swap i l s) k \<noteq> HEAP_ARRAY s i" using last by simp
    show ?thesis
      using heap_wf_pos [OF wf1 k(1) k'(1)] ne
      by (simp add: HEAP_ARRAY_remove_at heap_index_remove_at l_def [symmetric])
  qed
  have node: "0 \<le> heap_index (GLB (remove_at i s) n) \<and>
      heap_index (GLB (remove_at i s) n) < heap_size s - 1 \<and>
      HEAP_ARRAY (remove_at i s) (heap_index (GLB (remove_at i s) n)) = n"
    if n: "0 \<le> n" "n < MAX_NODES" "heap_index (GLB (remove_at i s) n) \<noteq> NIL" for n
  proof -
    have ne: "n \<noteq> HEAP_ARRAY s i" using n(3) by (auto simp: heap_index_remove_at)
    then have eq: "heap_index (GLB (remove_at i s) n) = heap_index (GLB (heap_swap i l s) n)"
      by (simp add: heap_index_remove_at l_def)
    have nn: "heap_index (GLB (heap_swap i l s) n) \<noteq> NIL" using n(3) eq by simp
    note w = heap_wf_node [OF wf1 n(1,2) nn]
    have "heap_index (GLB (heap_swap i l s) n) \<noteq> l"
      using w(3) last ne by auto
    then show ?thesis
      using w eq by (simp add: HEAP_ARRAY_remove_at l_def [symmetric]) (simp add: l_def)
  qed
  show ?thesis
    unfolding heap_wf_def using sz pos node by simp
qed

lemma in_heap_remove_at:
  assumes wf: "heap_wf s" and i: "0 \<le> i" "i < heap_size s"
  shows "in_heap (remove_at i s) n = (n \<noteq> HEAP_ARRAY s i \<and> in_heap s n)"
proof -
  have l: "0 \<le> heap_size s - 1" "heap_size s - 1 < heap_size s" using i by auto
  show ?thesis
    using in_heap_heap_swap [OF wf i l, of n]
    by (auto simp: in_heap_def heap_index_remove_at)
qed

text \<open>The state of \<open>heap_insert\<close> before the new node bubbles up.\<close>

definition push_last :: "int \<Rightarrow> SharedMemory \<Rightarrow> SharedMemory" where
  "push_last n s =
     s\<lparr>HEAP_ARRAY := (HEAP_ARRAY s)(heap_size s := n),
       GLB := (GLB s)(n := (GLB s n)\<lparr>heap_index := heap_size s\<rparr>),
       heap_size := heap_size s + 1\<rparr>"

lemma heap_size_push_last [simp]: "heap_size (push_last n s) = heap_size s + 1"
  by (simp add: push_last_def)

lemma key_push_last [simp]: "key (GLB (push_last n s) m) = key (GLB s m)"
  by (simp add: push_last_def)

lemma stdout_push_last [simp]: "stdout (push_last n s) = stdout s"
  by (simp add: push_last_def)

lemma sched_frame_push_last [simp]: "sched_frame s (push_last n s)"
  by (simp add: push_last_def sched_frame_def)

lemma hkey_push_last: "k \<noteq> heap_size s \<Longrightarrow> hkey (push_last n s) k = hkey s k"
  by (simp add: hkey_def push_last_def)

lemma in_heap_push_last:
  "0 \<le> heap_size s \<Longrightarrow> in_heap (push_last n s) m = (m = n \<or> in_heap s m)"
  by (auto simp: in_heap_def push_last_def NIL_def)

lemma heap_wf_push_last:
  assumes wf: "heap_wf s" and n: "0 \<le> n" "n < MAX_NODES" "\<not> in_heap s n"
    and sz: "heap_size s < MAX_NODES"
  shows "heap_wf (push_last n s)"
proof -
  have sz': "0 \<le> heap_size s" using wf by (simp add: heap_wf_def)
  have pos: "0 \<le> HEAP_ARRAY (push_last n s) k \<and> HEAP_ARRAY (push_last n s) k < MAX_NODES \<and>
      heap_index (GLB (push_last n s) (HEAP_ARRAY (push_last n s) k)) = k"
    if k: "0 \<le> k" "k < heap_size s + 1" for k
  proof (cases "k = heap_size s")
    case True
    then show ?thesis using n by (simp add: push_last_def)
  next
    case False
    then have k': "k < heap_size s" using k by simp
    have "HEAP_ARRAY s k \<noteq> n"
      using heap_wf_pos(1) [OF wf k(1) k'] n(3) k(1) by (auto simp: in_heap_def NIL_def)
    then show ?thesis
      using heap_wf_pos [OF wf k(1) k'] False by (simp add: push_last_def)
  qed
  have node: "0 \<le> heap_index (GLB (push_last n s) m) \<and>
      heap_index (GLB (push_last n s) m) < heap_size s + 1 \<and>
      HEAP_ARRAY (push_last n s) (heap_index (GLB (push_last n s) m)) = m"
    if m: "0 \<le> m" "m < MAX_NODES" "heap_index (GLB (push_last n s) m) \<noteq> NIL" for m
  proof (cases "m = n")
    case True
    then show ?thesis using sz' by (simp add: push_last_def)
  next
    case False
    then have "heap_index (GLB s m) \<noteq> NIL" using m(3) by (simp add: push_last_def)
    from heap_wf_node [OF wf m(1,2) this] False show ?thesis
      by (simp add: push_last_def)
  qed
  show ?thesis
    unfolding heap_wf_def using sz sz' pos node by simp
qed

lemma up_ok_push_last:
  assumes "min_heap s" "0 \<le> heap_size s"
  shows "up_ok (push_last n s) (heap_size s)"
proof -
  have A: "\<And>k. 1 \<le> k \<Longrightarrow> k < heap_size s \<Longrightarrow> hkey s ((k - 1) div 2) \<le> hkey s k"
    using assms(1) by (auto simp: min_heap_alt)
  have 1: "hkey (push_last n s) ((k - 1) div 2) \<le> hkey (push_last n s) k"
    if k: "1 \<le> k" "k < heap_size s + 1" "k \<noteq> heap_size s" for k
  proof -
    have "(k - 1) div 2 \<noteq> heap_size s" using k by auto
    then show ?thesis using A [of k] k by (simp add: hkey_push_last)
  qed
  have 2: "False" if k: "1 \<le> k" "k < heap_size s + 1" "(k - 1) div 2 = heap_size s" for k
    using k by auto
  show ?thesis
    unfolding up_ok_def using 1 2 by auto
qed

lemma min_heap_root:
  assumes "min_heap s"
  shows "0 \<le> k \<Longrightarrow> k < heap_size s \<Longrightarrow> hkey s 0 \<le> hkey s k"
proof (induction "nat k" arbitrary: k rule: less_induct)
  case less
  show ?case
  proof (cases "k = 0")
    case True
    then show ?thesis by simp
  next
    case False
    then have k: "1 \<le> k" using less.prems by simp
    have p: "0 \<le> (k - 1) div 2" "(k - 1) div 2 < k" using k by auto
    have "hkey s 0 \<le> hkey s ((k - 1) div 2)"
      by (rule less.hyps) (use p less.prems in auto)
    also have "\<dots> \<le> hkey s k"
      using assms k less.prems by (auto simp: min_heap_alt)
    finally show ?thesis .
  qed
qed

lemma min_heap_root_node:
  assumes "heap_wf s" "min_heap s" "0 \<le> m" "m < MAX_NODES" "in_heap s m"
  shows "key (GLB s (HEAP_ARRAY s 0)) \<le> key (GLB s m)"
proof -
  have nn: "heap_index (GLB s m) \<noteq> NIL" using assms(5) by (simp add: in_heap_def)
  note w = heap_wf_node [OF assms(1,3,4) nn]
  have "hkey s 0 \<le> hkey s (heap_index (GLB s m))"
    by (rule min_heap_root [OF assms(2) w(1,2)])
  then show ?thesis using w(3) by (simp add: hkey_def)
qed

lemma min_heap_remove_last:
  assumes "min_heap s" "0 < heap_size s"
  shows "min_heap (remove_at (heap_size s - 1) s)"
  unfolding min_heap_alt
proof
  fix k assume "k \<in> {1..<heap_size (remove_at (heap_size s - 1) s)}"
  then have k: "1 \<le> k" "k < heap_size s - 1" by auto
  then have "(k - 1) div 2 < heap_size s - 1" by auto
  then show "hkey (remove_at (heap_size s - 1) s) ((k - 1) div 2)
      \<le> hkey (remove_at (heap_size s - 1) s) k"
    using assms(1) k by (auto simp: hkey_remove_at min_heap_alt)
qed

lemma up_ok_remove_at:
  assumes mh: "min_heap s" and i: "0 < i" "i < heap_size s - 1"
    and lt: "hkey (remove_at i s) i < hkey (remove_at i s) (heap_parent i)"
  shows "up_ok (remove_at i s) i"
proof -
  have A: "\<And>k. 1 \<le> k \<Longrightarrow> k < heap_size s \<Longrightarrow> hkey s ((k - 1) div 2) \<le> hkey s k"
    using mh by (auto simp: min_heap_alt)
  have p: "0 \<le> (i - 1) div 2" "(i - 1) div 2 < i" using i by auto
  have lt': "hkey s (heap_size s - 1) < hkey s ((i - 1) div 2)"
    using lt i p by (simp add: hkey_remove_at heap_parent_pos)
  have pi: "hkey s ((i - 1) div 2) \<le> hkey s i" using A [of i] i by simp
  have 1: "hkey (remove_at i s) ((k - 1) div 2) \<le> hkey (remove_at i s) k"
    if k: "1 \<le> k" "k < heap_size s - 1" "k \<noteq> i" for k
  proof -
    have kk: "(k - 1) div 2 < heap_size s - 1" using k by auto
    show ?thesis
    proof (cases "(k - 1) div 2 = i")
      case True
      have "hkey s i \<le> hkey s k" using A [of k] k True by simp
      then show ?thesis using True k lt' pi by (simp add: hkey_remove_at)
    next
      case False
      then show ?thesis using A [of k] k kk by (simp add: hkey_remove_at)
    qed
  qed
  have 2: "hkey (remove_at i s) ((i - 1) div 2) \<le> hkey (remove_at i s) k"
    if k: "1 \<le> k" "k < heap_size s - 1" "(k - 1) div 2 = i" for k
  proof -
    have "k \<noteq> i" using k by auto
    moreover have "hkey s i \<le> hkey s k" using A [of k] k by simp
    ultimately show ?thesis using k p i pi by (simp add: hkey_remove_at)
  qed
  show ?thesis
    unfolding up_ok_def using 1 2 by auto
qed

lemma down_ok_remove_at:
  assumes mh: "min_heap s" and i: "0 \<le> i" "i < heap_size s - 1"
    and ge: "\<not> (0 < i \<and> hkey (remove_at i s) i < hkey (remove_at i s) (heap_parent i))"
  shows "down_ok (remove_at i s) i"
proof -
  have A: "\<And>k. 1 \<le> k \<Longrightarrow> k < heap_size s \<Longrightarrow> hkey s ((k - 1) div 2) \<le> hkey s k"
    using mh by (auto simp: min_heap_alt)
  have 1: "hkey (remove_at i s) ((k - 1) div 2) \<le> hkey (remove_at i s) k"
    if k: "1 \<le> k" "k < heap_size s - 1" "(k - 1) div 2 \<noteq> i" for k
  proof -
    have kk: "(k - 1) div 2 < heap_size s - 1" using k by auto
    show ?thesis
    proof (cases "k = i")
      case True
      then have "\<not> hkey (remove_at i s) i < hkey (remove_at i s) ((i - 1) div 2)"
        using ge k by (auto simp: heap_parent_pos)
      then show ?thesis using True by simp
    next
      case False
      then show ?thesis using A [of k] k kk by (simp add: hkey_remove_at)
    qed
  qed
  have 2: "hkey (remove_at i s) ((i - 1) div 2) \<le> hkey (remove_at i s) k"
    if k: "1 \<le> k" "k < heap_size s - 1" "(k - 1) div 2 = i" "1 \<le> i" for k
  proof -
    have "k \<noteq> i" using k by auto
    moreover have "(i - 1) div 2 < i" using k by auto
    moreover have "hkey s i \<le> hkey s k" using A [of k] k by simp
    moreover have "hkey s ((i - 1) div 2) \<le> hkey s i" using A [of i] k i by simp
    ultimately show ?thesis using k i by (simp add: hkey_remove_at)
  qed
  show ?thesis
    unfolding down_ok_def using 1 2 by auto
qed

text \<open>The repair step of \<open>heap_delete\<close> at position \<open>i\<close>.\<close>

definition delete_fix :: "int \<Rightarrow> SharedMemory \<Rightarrow> SharedMemory" where
  "delete_fix i s =
     (if i < heap_size s
      then (if i > 0 \<and> hkey s i < hkey s (heap_parent i)
            then bubble_up i s
            else min_heapify i s)
      else s)"

lemma heap_delete_eq:
  "heap_delete n s =
     (if n < 0 \<or> n \<ge> MAX_NODES \<or> heap_index (GLB s n) = NIL
      then (-1, printf (''HeapError: Node '' @ show_int n @ '' is not in the heap.'') s)
      else (0, delete_fix (heap_index (GLB s n))
                 (drop_last n (heap_swap (heap_index (GLB s n)) (heap_size s - 1) s))))"
  by (simp add: heap_delete_def Let_def delete_fix_def drop_last_def)

lemma heap_delete_in:
  assumes "heap_wf s" "0 \<le> n" "n < MAX_NODES" "in_heap s n"
  shows "heap_delete n s = (0, delete_fix (heap_index (GLB s n)) (remove_at (heap_index (GLB s n)) s))"
proof -
  have nn: "heap_index (GLB s n) \<noteq> NIL" using assms(4) by (simp add: in_heap_def)
  have "HEAP_ARRAY s (heap_index (GLB s n)) = n"
    by (rule heap_wf_node(3) [OF assms(1,2,3) nn])
  then show ?thesis using assms(2,3) nn by (simp add: heap_delete_eq remove_at_def)
qed

lemma delete_fix_simps [simp]:
  "heap_size (delete_fix i s) = heap_size s"
  "key (GLB (delete_fix i s) m) = key (GLB s m)"
  "stdout (delete_fix i s) = stdout s"
  "sched_frame s (delete_fix i s)"
  by (simp_all add: delete_fix_def)

lemma heap_wf_delete_fix:
  "heap_wf s \<Longrightarrow> 0 \<le> i \<Longrightarrow> heap_wf (delete_fix i s)"
  by (simp add: delete_fix_def heap_wf_bubble_up heap_wf_min_heapify)

lemma in_heap_delete_fix:
  "heap_wf s \<Longrightarrow> 0 \<le> i \<Longrightarrow> in_heap (delete_fix i s) m = in_heap s m"
  by (simp add: delete_fix_def in_heap_bubble_up in_heap_min_heapify)

lemma min_heap_delete_fix_remove_at:
  assumes mh: "min_heap s" and i: "0 \<le> i" "i < heap_size s"
  shows "min_heap (delete_fix i (remove_at i s))"
proof (cases "i < heap_size s - 1")
  case True
  show ?thesis
  proof (cases "0 < i \<and> hkey (remove_at i s) i < hkey (remove_at i s) (heap_parent i)")
    case up: True
    have "min_heap (bubble_up i (remove_at i s))"
      by (rule min_heap_bubble_up [OF up_ok_remove_at [OF mh _ True]]) (use up True in auto)
    then show ?thesis using up True by (simp add: delete_fix_def)
  next
    case down: False
    have "min_heap (min_heapify i (remove_at i s))"
      by (rule min_heap_min_heapify [OF down_ok_remove_at [OF mh i(1) True down] i(1)])
    then show ?thesis using down True by (auto simp: delete_fix_def)
  qed
next
  case False
  then have "i = heap_size s - 1" using i by simp
  then show ?thesis using min_heap_remove_last [OF mh] i by (simp add: delete_fix_def)
qed

section \<open>The scheduler of code/hw1.c\<close>

text \<open>
  \<open>get_current_time_ms\<close> reads the monotonic clock; the model takes the next reading of
  \<open>clock\<close>.
\<close>

definition get_current_time_ms :: "SharedMemory \<Rightarrow> int \<times> SharedMemory" where
  "get_current_time_ms s = (clock s (clock_reads s), s\<lparr>clock_reads := Suc (clock_reads s)\<rparr>)"

text \<open>Writes through the pointers \<open>Customer *c = &shm->customers[idx]\<close> and
  \<open>ToolInfo *t = &shm->tools[tool_id]\<close>.\<close>

definition upd_customer :: "int \<Rightarrow> (Customer \<Rightarrow> Customer) \<Rightarrow> SharedMemory \<Rightarrow> SharedMemory" where
  "upd_customer idx f s = s\<lparr>customers := (customers s)(idx := f (customers s idx))\<rparr>"

definition upd_tool :: "int \<Rightarrow> (ToolInfo \<Rightarrow> ToolInfo) \<Rightarrow> SharedMemory \<Rightarrow> SharedMemory" where
  "upd_tool tid f s = s\<lparr>tools := (tools s)(tid := f (tools s tid))\<rparr>"

text \<open>
  \<open>setup_shared_memory q Q k\<close>: the region is zeroed by \<open>memset\<close>, then initialised. The
  last argument is the clock of the run; nothing has been printed yet. Tools at and above
  \<open>k\<close> keep the zero bytes of \<open>memset\<close>.
\<close>

definition setup_shared_memory :: "int \<Rightarrow> int \<Rightarrow> int \<Rightarrow> (nat \<Rightarrow> int) \<Rightarrow> SharedMemory" where
  "setup_shared_memory qv Qv k clk =
     \<lparr>customers = (\<lambda>i.
         \<lparr>customer_id = -1, is_allocated = False, state = CUSTOMER_STATE_DELETED, share = 0,
          request_duration = 0, remaining_duration = 0, current_tool = -1, session_start = 0,
          wait_start = 0, cust_heap_index = -1, event_pending = False,
          event_type = EVENT_NONE, event_tool_id = 0\<rparr>),
      free_customer_slots = (\<lambda>i. i),
      free_customer_count = MAX_CUSTOMERS,
      waiting_count = 0,
      tools = (\<lambda>i.
         if 0 \<le> i \<and> i < k
         then \<lparr>tool_id = i, total_usage = 0, current_user = -1, current_usage = 0,
               tool_session_start = 0, tool_should_exit = False\<rparr>
         else \<lparr>tool_id = 0, total_usage = 0, current_user = 0, current_usage = 0,
               tool_session_start = 0, tool_should_exit = False\<rparr>),
      num_tools = k,
      total_customers = 0,
      resting_customers = 0,
      total_share = 0,
      q = qv,
      Q = Qv,
      start_time = clk 0,
      server_should_exit = False,
      GLB = (\<lambda>i. \<lparr>key = 0, heap_index = NIL\<rparr>),
      HEAP_ARRAY = (\<lambda>i. 0),
      heap_size = 0,
      stdout = [],
      clock = clk,
      clock_reads = 1\<rparr>"

definition allocate_customer :: "int \<Rightarrow> SharedMemory \<Rightarrow> int \<times> SharedMemory" where
  "allocate_customer cid s =
     (if free_customer_count s \<le> 0 then (-1, s)
      else
        let s = s\<lparr>free_customer_count := free_customer_count s - 1\<rparr>;
            idx = free_customer_slots s (free_customer_count s);
            s = upd_customer idx (\<lambda>c. c\<lparr>is_allocated := True, customer_id := cid,
                                          state := CUSTOMER_STATE_RESTING\<rparr>) s;
            s = (if total_customers s > 0
                 then upd_customer idx
                        (\<lambda>c. c\<lparr>share := total_share s / real_of_int (total_customers s)\<rparr>) s
                 else upd_customer idx (\<lambda>c. c\<lparr>share := 0\<rparr>) s);
            s = upd_customer idx (\<lambda>c. c\<lparr>request_duration := 0, remaining_duration := 0,
                                          current_tool := -1, session_start := 0, wait_start := 0,
                                          cust_heap_index := idx, event_pending := False,
                                          event_type := EVENT_NONE\<rparr>) s;
            s = s\<lparr>total_customers := total_customers s + 1\<rparr>;
            s = s\<lparr>resting_customers := resting_customers s + 1\<rparr>;
            s = s\<lparr>total_share := total_share s + share (customers s idx)\<rparr>
        in (idx, s))"

definition deallocate_customer :: "int \<Rightarrow> SharedMemory \<Rightarrow> SharedMemory" where
  "deallocate_customer customer_idx s =
     (if \<not> is_allocated (customers s customer_idx) then s
      else
        let c = customers s customer_idx;
            s = (if state c = CUSTOMER_STATE_RESTING
                 then s\<lparr>resting_customers := resting_customers s - 1\<rparr>
                 else if state c = CUSTOMER_STATE_WAITING
                 then (let s = (if heap_index (GLB s customer_idx) \<noteq> NIL
                                then snd (heap_delete customer_idx s) else s)
                       in s\<lparr>waiting_count := waiting_count s - 1\<rparr>)
                 else if state c = CUSTOMER_STATE_USING
                 then (if current_tool c \<ge> 0 \<and> current_tool c < num_tools s
                       then upd_tool (current_tool c)
                              (\<lambda>t. t\<lparr>current_user := -1, current_usage := 0\<rparr>) s
                       else s)
                 else s);
            s = s\<lparr>total_customers := total_customers s - 1\<rparr>;
            s = s\<lparr>total_share := total_share s - share (customers s customer_idx)\<rparr>;
            s = upd_customer customer_idx
                  (\<lambda>c. c\<lparr>is_allocated := False, state := CUSTOMER_STATE_DELETED,
                          customer_id := -1, current_tool := -1\<rparr>) s;
            s = s\<lparr>free_customer_slots := (free_customer_slots s)(free_customer_count s := customer_idx)\<rparr>
        in s\<lparr>free_customer_count := free_customer_count s + 1\<rparr>)"

text \<open>The loop of \<open>find_free_tool\<close>, with its variables \<open>i\<close>, \<open>best_tool\<close>, \<open>min_usage\<close>.\<close>

function find_free_tool_loop :: "int \<Rightarrow> int \<Rightarrow> int \<Rightarrow> SharedMemory \<Rightarrow> int" where
  "find_free_tool_loop i best_tool min_usage s =
     (if i < num_tools s
      then (if current_user (tools s i) = -1 \<and>
               (total_usage (tools s i) < min_usage \<or>
                (total_usage (tools s i) = min_usage \<and> (best_tool = -1 \<or> i < best_tool)))
            then find_free_tool_loop (i + 1) i (total_usage (tools s i)) s
            else find_free_tool_loop (i + 1) best_tool min_usage s)
      else best_tool)"
  by pat_completeness auto
termination
  by (relation "measure (\<lambda>(i, b, m, s). nat (num_tools s - i))") auto

declare find_free_tool_loop.simps [simp del]

definition find_free_tool :: "SharedMemory \<Rightarrow> int" where
  "find_free_tool s = find_free_tool_loop 0 (-1) LLONG_MAX s"

text \<open>The loop of \<open>find_preemption_candidate\<close>, with \<open>i\<close>, \<open>candidate\<close>, \<open>max_usage\<close>.\<close>

function preemption_loop :: "int \<Rightarrow> int \<Rightarrow> int \<Rightarrow> SharedMemory \<Rightarrow> int" where
  "preemption_loop i candidate max_usage s =
     (if i < num_tools s
      then (let user_idx = current_user (tools s i);
                usage = current_usage (tools s i)
            in if user_idx \<noteq> -1 \<and>
                  (usage > max_usage \<or> (usage = max_usage \<and> (candidate = -1 \<or> i < candidate)))
               then preemption_loop (i + 1) i usage s
               else preemption_loop (i + 1) candidate max_usage s)
      else candidate)"
  by pat_completeness auto
termination
  by (relation "measure (\<lambda>(i, c, m, s). nat (num_tools s - i))") auto

declare preemption_loop.simps [simp del]

definition find_preemption_candidate :: "real \<Rightarrow> SharedMemory \<Rightarrow> int" where
  "find_preemption_candidate new_share s =
     (let candidate = preemption_loop 0 (-1) 0 s
      in if candidate = -1 then -1
         else
           let user_idx = current_user (tools s candidate);
               c = customers s user_idx
           in if share c < new_share then -1
              else if current_usage (tools s candidate) < q s then -1
              else candidate)"

text \<open>The three event lines; the newline that ends each is not part of the model.\<close>

definition line_assigned :: "int \<Rightarrow> int \<Rightarrow> int \<Rightarrow> string" where
  "line_assigned cid sh t =
     ''Customer '' @ show_int cid @ '' with share '' @ show_int sh
       @ '' is assigned to the tool '' @ show_int t @ ''.''"

definition line_removed :: "int \<Rightarrow> int \<Rightarrow> int \<Rightarrow> string" where
  "line_removed cid sh t =
     ''Customer '' @ show_int cid @ '' with share '' @ show_int sh
       @ '' is removed from the tool '' @ show_int t @ ''.''"

definition line_leaves :: "int \<Rightarrow> int \<Rightarrow> int \<Rightarrow> string" where
  "line_leaves cid sh t =
     ''Customer '' @ show_int cid @ '' with share '' @ show_int sh
       @ '' leaves the tool '' @ show_int t @ ''.''"

text \<open>
  The block \<open>if (GLB[customer_idx].heap_index != NIL) heap_delete(customer_idx);
  shm->waiting_count--;\<close> that hw1.c runs for a customer in state Waiting.
\<close>

definition leave_queue :: "int \<Rightarrow> SharedMemory \<Rightarrow> SharedMemory" where
  "leave_queue customer_idx s =
     (let s = (if heap_index (GLB s customer_idx) \<noteq> NIL
               then snd (heap_delete customer_idx s) else s)
      in s\<lparr>waiting_count := waiting_count s - 1\<rparr>)"

definition assign_tool_to_customer :: "int \<Rightarrow> int \<Rightarrow> SharedMemory \<Rightarrow> SharedMemory" where
  "assign_tool_to_customer customer_idx tid s =
     (let s = (if state (customers s customer_idx) = CUSTOMER_STATE_WAITING
               then leave_queue customer_idx s else s);
          (now, s) = get_current_time_ms s;
          s = upd_customer customer_idx
                (\<lambda>c. c\<lparr>state := CUSTOMER_STATE_USING, current_tool := tid,
                        session_start := now\<rparr>) s;
          s = upd_tool tid
                (\<lambda>t. t\<lparr>current_user := customer_idx, current_usage := 0,
                        tool_session_start := session_start (customers s customer_idx)\<rparr>) s;
          s = upd_customer customer_idx
                (\<lambda>c. c\<lparr>event_pending := True, event_type := EVENT_TOOL_ASSIGNED,
                        event_tool_id := tid\<rparr>) s
      in printf (line_assigned (customer_id (customers s customer_idx))
                   (trunc_int (share (customers s customer_idx))) tid) s)"

text \<open>
  The conversion \<open>(int)\<close> of a \<open>long long\<close>, as in \<open>(int)(now - c->session_start)\<close>:
  the value is reduced modulo \<open>2^32\<close> into the range of a 32-bit \<open>int\<close> (what gcc and
  clang do for a value out of range); a value already in that range is unchanged.
\<close>

definition int_cast :: "int \<Rightarrow> int" where
  "int_cast x = (x + 2147483648) mod 4294967296 - 2147483648"

definition remove_customer_from_tool :: "int \<Rightarrow> EventType \<Rightarrow> SharedMemory \<Rightarrow> SharedMemory" where
  "remove_customer_from_tool customer_idx event s =
     (if current_tool (customers s customer_idx) = -1 then s
      else
        let tid = current_tool (customers s customer_idx);
            (now, s) = get_current_time_ms s;
            usage = int_cast (now - session_start (customers s customer_idx));
            s = upd_customer customer_idx (\<lambda>c. c\<lparr>share := share c + real_of_int usage\<rparr>) s;
            s = s\<lparr>total_share := total_share s + real_of_int usage\<rparr>;
            s = upd_tool tid (\<lambda>t. t\<lparr>total_usage := total_usage t + usage\<rparr>) s;
            c = customers s customer_idx;
            s = (if event = EVENT_TOOL_REMOVED
                 then printf (line_removed (customer_id c) (trunc_int (share c)) (current_tool c)) s
                 else printf (line_leaves (customer_id c) (trunc_int (share c)) (current_tool c)) s);
            s = upd_tool tid (\<lambda>t. t\<lparr>current_user := -1, current_usage := 0\<rparr>) s;
            s = upd_customer customer_idx (\<lambda>c. c\<lparr>current_tool := -1\<rparr>) s
        in upd_customer customer_idx
             (\<lambda>c. c\<lparr>event_pending := True, event_type := event,
                     event_tool_id := tool_id (tools s tid)\<rparr>) s)"

definition assign_next_from_queue :: "int \<Rightarrow> SharedMemory \<Rightarrow> SharedMemory" where
  "assign_next_from_queue tid s =
     (if heap_size s \<le> 0 then s
      else
        let (next_idx, s) = heap_pop s
        in if next_idx \<noteq> NIL \<and> next_idx \<ge> 0
           then assign_tool_to_customer next_idx tid s
           else s)"

text \<open>
  The block that puts a customer into the waiting queue, which hw1.c repeats in
  \<open>handle_request\<close> (twice) and in \<open>tool_process\<close> (twice): state Waiting, \<open>wait_start\<close>,
  the heap key set to the share, \<open>heap_insert\<close>, \<open>waiting_count++\<close>.
\<close>

definition enter_queue :: "int \<Rightarrow> SharedMemory \<Rightarrow> SharedMemory" where
  "enter_queue customer_idx s =
     (let s = upd_customer customer_idx (\<lambda>c. c\<lparr>state := CUSTOMER_STATE_WAITING\<rparr>) s;
          (now, s) = get_current_time_ms s;
          s = upd_customer customer_idx (\<lambda>c. c\<lparr>wait_start := now\<rparr>) s;
          s = s\<lparr>GLB := (GLB s)(customer_idx :=
                  (GLB s customer_idx)\<lparr>key := share (customers s customer_idx)\<rparr>)\<rparr>;
          s = snd (heap_insert customer_idx s)
      in s\<lparr>waiting_count := waiting_count s + 1\<rparr>)"

text \<open>
  \<open>handle_request\<close>, between locking and unlocking the mutex. After the requester is
  enqueued the C code may signal the condition variable of one tool; signals and
  broadcasts change nothing in the shared region and are not part of the model.
\<close>

definition handle_request :: "int \<Rightarrow> int \<Rightarrow> SharedMemory \<Rightarrow> SharedMemory" where
  "handle_request customer_idx duration s =
     (let s = (if state (customers s customer_idx) = CUSTOMER_STATE_RESTING
               then s\<lparr>resting_customers := resting_customers s - 1\<rparr>
               else if state (customers s customer_idx) = CUSTOMER_STATE_WAITING
               then leave_queue customer_idx s
               else s);
          s = upd_customer customer_idx
                (\<lambda>c. c\<lparr>request_duration := duration, remaining_duration := duration\<rparr>) s;
          tool = find_free_tool s
      in if tool \<noteq> -1 then assign_tool_to_customer customer_idx tool s
         else
           let tool = find_preemption_candidate (share (customers s customer_idx)) s
           in if tool \<noteq> -1
              then
                let old_user = current_user (tools s tool);
                    s = remove_customer_from_tool old_user EVENT_TOOL_REMOVED s;
                    s = enter_queue old_user s
                in assign_tool_to_customer customer_idx tool s
              else enter_queue customer_idx s)"

definition handle_rest :: "int \<Rightarrow> SharedMemory \<Rightarrow> SharedMemory" where
  "handle_rest customer_idx s =
     (if state (customers s customer_idx) = CUSTOMER_STATE_USING
      then
        let tid = current_tool (customers s customer_idx);
            s = remove_customer_from_tool customer_idx EVENT_TOOL_COMPLETED s;
            s = (if tid \<noteq> -1 then assign_next_from_queue tid s else s);
            s = upd_customer customer_idx (\<lambda>c. c\<lparr>state := CUSTOMER_STATE_RESTING\<rparr>) s
        in s\<lparr>resting_customers := resting_customers s + 1\<rparr>
      else if state (customers s customer_idx) = CUSTOMER_STATE_WAITING
      then
        let s = leave_queue customer_idx s;
            s = upd_customer customer_idx (\<lambda>c. c\<lparr>state := CUSTOMER_STATE_RESTING\<rparr>) s
        in s\<lparr>resting_customers := resting_customers s + 1\<rparr>
      else s)"

text \<open>
  One iteration of the loop of \<open>tool_process\<close>, between locking and unlocking the mutex.
  With \<open>server_should_exit\<close> set the loop ends, and with no bound customer the runner only
  waits on the condition variable: both leave the shared region as it is.
\<close>

definition tool_process :: "int \<Rightarrow> SharedMemory \<Rightarrow> SharedMemory" where
  "tool_process tid s =
     (if server_should_exit s then s
      else if current_user (tools s tid) = -1 then s
      else
        let user = current_user (tools s tid);
            (now, s) = get_current_time_ms s;
            elapsed = int_cast (now - tool_session_start (tools s tid));
            s = upd_tool tid (\<lambda>t. t\<lparr>current_usage := elapsed\<rparr>) s;
            remaining = request_duration (customers s user) - elapsed;
            s = upd_customer user
                  (\<lambda>c. c\<lparr>remaining_duration := (if remaining < 0 then 0 else remaining)\<rparr>) s
        in if remaining_duration (customers s user) \<le> 0
           then
             let s = remove_customer_from_tool (current_user (tools s tid)) EVENT_TOOL_COMPLETED s;
                 s = upd_customer user (\<lambda>c. c\<lparr>state := CUSTOMER_STATE_RESTING\<rparr>) s;
                 s = s\<lparr>resting_customers := resting_customers s + 1\<rparr>
             in assign_next_from_queue tid s
           else if elapsed \<ge> Q s
           then (if heap_size s > 0
                 then
                   let old_user = current_user (tools s tid);
                       s = remove_customer_from_tool old_user EVENT_TOOL_REMOVED s;
                       s = enter_queue old_user s
                   in assign_next_from_queue tid s
                 else s)
           else if elapsed \<ge> q s \<and> heap_size s > 0
           then
             let min_idx = HEAP_ARRAY s 0
             in if min_idx \<ge> 0 \<and> min_idx < MAX_CUSTOMERS \<and>
                   share (customers s min_idx) < share (customers s user)
                then
                  let old_user = current_user (tools s tid);
                      s = remove_customer_from_tool old_user EVENT_TOOL_REMOVED s;
                      s = enter_queue old_user s
                  in assign_next_from_queue tid s
                else s
           else s)"

lemma get_time_simps [simp]:
  "fst (get_current_time_ms s) = clock s (clock_reads s)"
  "snd (get_current_time_ms s) = s\<lparr>clock_reads := Suc (clock_reads s)\<rparr>"
  by (simp_all add: get_current_time_ms_def)

section \<open>States used to instantiate the theorems\<close>

text \<open>A server with \<open>q = 100\<close>, \<open>Q = 500\<close> and one tool, whose clock advances by 50 ms
  at each reading; customer slot 7 holds tool 0 since time 1020.\<close>

definition demo_clock :: "nat \<Rightarrow> int" where
  "demo_clock n = 1000 + 50 * int n"

definition demo_using :: SharedMemory where
  "demo_using =
     upd_tool 0 (\<lambda>t. t\<lparr>current_user := 7, tool_session_start := 1020\<rparr>)
       (upd_customer 7
          (\<lambda>c. c\<lparr>customer_id := 4001, is_allocated := True, state := CUSTOMER_STATE_USING,
                  share := 25 / 2, request_duration := 2000, remaining_duration := 2000,
                  current_tool := 0, session_start := 1020\<rparr>)
          (setup_shared_memory 100 500 1 demo_clock))"

section \<open>Share accounting on unbind\<close>







section \<open>Initial share of a new customer\<close>

text \<open>
  What \<open>allocate_customer\<close> computes: the new customer receives the quotient of the two
  counters \<open>total_share\<close> and \<open>total_customers\<close>, both read before the arrival is counted,
  and the share 0 when \<open>total_customers\<close> is 0.
\<close>

lemma allocate_customer_share:
  assumes "0 < free_customer_count s" "0 \<le> total_customers s"
  shows "let idx = fst (allocate_customer cid s);
             s' = snd (allocate_customer cid s)
         in idx = free_customer_slots s (free_customer_count s - 1) \<and>
            share (customers s' idx) =
              (if total_customers s = 0 then 0
               else total_share s / real_of_int (total_customers s)) \<and>
            total_customers s' = total_customers s + 1 \<and>
            total_share s' = total_share s + share (customers s' idx) \<and>
            is_allocated (customers s' idx) \<and>
            state (customers s' idx) = CUSTOMER_STATE_RESTING"
  using assms by (simp add: allocate_customer_def Let_def upd_customer_def)

text \<open>
  The population the specification speaks of: the customers whose slot is allocated, their
  number, the sum of their shares and their average share (0 for an empty population).
\<close>

definition allocated_slots :: "SharedMemory \<Rightarrow> int set" where
  "allocated_slots s = {i \<in> {0..<MAX_CUSTOMERS}. is_allocated (customers s i)}"

definition population_average :: "SharedMemory \<Rightarrow> real" where
  "population_average s =
     (if card (allocated_slots s) = 0 then 0
      else (\<Sum>i\<in>allocated_slots s. share (customers s i)) / real (card (allocated_slots s)))"

text \<open>As long as the two counters agree with the customer table, the quotient is the
  average share of the allocated customers.\<close>

lemma allocate_customer_population_average:
  assumes "0 < free_customer_count s"
    and "total_customers s = int (card (allocated_slots s))"
    and "total_share s = (\<Sum>i\<in>allocated_slots s. share (customers s i))"
  shows "share (customers (snd (allocate_customer cid s)) (fst (allocate_customer cid s)))
           = population_average s"
  using assms by (simp add: allocate_customer_def Let_def upd_customer_def population_average_def)

text \<open>One customer with share 50 is allocated (scenario 6 of the specification).\<close>

definition demo_one_rested :: SharedMemory where
  "demo_one_rested =
     (upd_customer 1023
        (\<lambda>c. c\<lparr>customer_id := 4001, is_allocated := True, state := CUSTOMER_STATE_RESTING,
                share := 50\<rparr>)
        (setup_shared_memory 100 500 2 demo_clock))
     \<lparr>free_customer_count := 1023, total_customers := 1, resting_customers := 1,
      total_share := 50\<rparr>"

text \<open>Two customers rest: slot 1023 with share 50 and slot 1022 with share 10.\<close>

definition demo_pair :: SharedMemory where
  "demo_pair =
     (upd_customer 1022
        (\<lambda>c. c\<lparr>customer_id := 4002, is_allocated := True, state := CUSTOMER_STATE_RESTING,
                share := 10\<rparr>)
        (upd_customer 1023
           (\<lambda>c. c\<lparr>customer_id := 4001, is_allocated := True, state := CUSTOMER_STATE_RESTING,
                   share := 50\<rparr>)
           (setup_shared_memory 100 500 2 demo_clock)))
     \<lparr>free_customer_count := 1022, total_customers := 2, resting_customers := 2,
      total_share := 60\<rparr>"

section \<open>REST twice\<close>

text \<open>
  Claim C6. \<open>handle_rest\<close> on a customer that is already Resting is a no-op: the state of
  the shared region, with all its counters and the queue, is unchanged. Hence a second REST
  changes nothing after the first.
\<close>

theorem handle_rest_idempotent:
  "(state (customers s idx) = CUSTOMER_STATE_RESTING \<longrightarrow> handle_rest idx s = s) \<and>
   handle_rest idx (handle_rest idx s) = handle_rest idx s"
proof -
  have a: "state (customers s idx) = CUSTOMER_STATE_RESTING \<longrightarrow> handle_rest idx s = s"
    by (simp add: handle_rest_def)
  have st: "state (customers (handle_rest idx s) idx) = CUSTOMER_STATE_RESTING \<or>
            state (customers (handle_rest idx s) idx) = CUSTOMER_STATE_DELETED"
    by (cases "state (customers s idx)") (simp_all add: handle_rest_def Let_def upd_customer_def)
  have b: "handle_rest idx (handle_rest idx s) = handle_rest idx s"
    using st by (auto simp: handle_rest_def [of idx "handle_rest idx s"])
  show ?thesis using a b by simp
qed

theorem handle_rest_idempotent_witness:
  "state (customers demo_one_rested 1023) = CUSTOMER_STATE_RESTING \<and>
   handle_rest 1023 demo_one_rested = demo_one_rested \<and>
   resting_customers (handle_rest 1023 (handle_rest 1023 demo_one_rested)) = 1"
proof -
  have h: "state (customers demo_one_rested 1023) = CUSTOMER_STATE_RESTING"
    by (simp add: demo_one_rested_def upd_customer_def)
  have r: "resting_customers demo_one_rested = 1" by (simp add: demo_one_rested_def)
  show ?thesis
    using handle_rest_idempotent [of demo_one_rested 1023] h r by simp
qed

section \<open>What the heap operations change\<close>

lemma sched_frame_fields:
  assumes "sched_frame s s'"
  shows "customers s' = customers s" "free_customer_slots s' = free_customer_slots s"
    "free_customer_count s' = free_customer_count s" "waiting_count s' = waiting_count s"
    "tools s' = tools s" "num_tools s' = num_tools s" "total_customers s' = total_customers s"
    "resting_customers s' = resting_customers s" "total_share s' = total_share s"
    "q s' = q s" "Q s' = Q s" "start_time s' = start_time s"
    "server_should_exit s' = server_should_exit s" "clock s' = clock s"
    "clock_reads s' = clock_reads s"
  using assms by (simp_all add: sched_frame_def)

lemma sched_frame_printf [simp]: "sched_frame s (printf l s)"
  by (simp add: sched_frame_def printf_def)

lemma printf_heap_simps [simp]:
  "GLB (printf l s) = GLB s" "HEAP_ARRAY (printf l s) = HEAP_ARRAY s"
  "heap_size (printf l s) = heap_size s" "heap_wf (printf l s) = heap_wf s"
  "min_heap (printf l s) = min_heap s" "in_heap (printf l s) n = in_heap s n"
  "stdout (printf l s) = stdout s @ [l]"
  by (simp_all add: printf_def)

lemma sched_frame_drop_last: "sched_frame s (drop_last n s)"
  by (simp add: sched_frame_def drop_last_def)

lemma sched_frame_heap_delete [simp]: "sched_frame s (snd (heap_delete n s))"
proof -
  have "sched_frame s (delete_fix i (drop_last n (heap_swap i j s)))" for i j
    by (rule sched_frame_trans [OF sched_frame_trans [OF sched_frame_heap_swap
          sched_frame_drop_last] delete_fix_simps(4)])
  then show ?thesis by (simp add: heap_delete_eq)
qed

lemma key_heap_delete [simp]: "key (GLB (snd (heap_delete n s)) m) = key (GLB s m)"
  by (simp add: heap_delete_eq drop_last_def)

lemma heap_insert_eq:
  "heap_insert n s =
     (if heap_size s \<ge> MAX_NODES then (-1, printf ''HeapError: Heap is full.'' s)
      else if n < 0 \<or> n \<ge> MAX_NODES
      then (-1, printf (''HeapError: Invalid node index '' @ show_int n @ ''.'') s)
      else
        let s1 = (if key (GLB s n) = 0
                  then printf (''HeapError: Node '' @ show_int n
                                 @ '' does not appear to be initialized.'') s
                  else s)
        in if heap_index (GLB s n) \<noteq> NIL
           then (-1, printf (''HeapError: Node '' @ show_int n
                               @ '' is already in the heap at index ''
                               @ show_int (heap_index (GLB s n)) @ ''.'') s1)
           else (0, bubble_up (heap_size s) (push_last n s1)))"
  by (simp add: heap_insert_def Let_def push_last_def)

lemma sched_frame_heap_insert [simp]: "sched_frame s (snd (heap_insert n s))"
proof -
  have "sched_frame s (bubble_up i (push_last n s1))" if "sched_frame s s1" for i s1
    by (rule sched_frame_trans [OF sched_frame_trans [OF that sched_frame_push_last]
          sched_frame_bubble_up])
  then show ?thesis
    by (simp add: heap_insert_eq Let_def sched_frame_trans [OF sched_frame_printf sched_frame_printf])
qed

lemma key_heap_insert [simp]: "key (GLB (snd (heap_insert n s)) m) = key (GLB s m)"
  by (simp add: heap_insert_eq Let_def)

lemma heap_pop_eq:
  "heap_pop s =
     (if heap_size s \<le> 0
      then (NIL, printf ''HeapError: Cannot pop from an empty heap.'' s)
      else (HEAP_ARRAY s 0,
            if heap_size s - 1 > 0 then min_heapify 0 (remove_at 0 s) else remove_at 0 s))"
  by (simp add: heap_pop_def Let_def remove_at_def drop_last_def)

lemma sched_frame_heap_pop [simp]: "sched_frame s (snd (heap_pop s))"
  by (simp add: heap_pop_eq sched_frame_trans [OF sched_frame_remove_at sched_frame_min_heapify])

lemma key_heap_pop [simp]: "key (GLB (snd (heap_pop s)) m) = key (GLB s m)"
  by (simp add: heap_pop_eq)

lemmas heap_delete_fields [simp] = sched_frame_fields [OF sched_frame_heap_delete]
lemmas heap_insert_fields [simp] = sched_frame_fields [OF sched_frame_heap_insert]
lemmas heap_pop_fields [simp] = sched_frame_fields [OF sched_frame_heap_pop]

text \<open>A heap that misses a node is not full.\<close>

lemma heap_not_full:
  assumes wf: "heap_wf s" and n: "0 \<le> n" "n < MAX_NODES" "\<not> in_heap s n"
  shows "heap_size s < MAX_NODES"
proof -
  have inj: "inj_on (HEAP_ARRAY s) {0..<heap_size s}"
    by (rule inj_onI) (use heap_wf_inj [OF wf] in auto)
  have sub: "HEAP_ARRAY s ` {0..<heap_size s} \<subseteq> {0..<MAX_NODES} - {n}"
  proof
    fix x assume "x \<in> HEAP_ARRAY s ` {0..<heap_size s}"
    then obtain i where i: "0 \<le> i" "i < heap_size s" "x = HEAP_ARRAY s i" by auto
    have "heap_index (GLB s x) = i" "0 \<le> x" "x < MAX_NODES"
      using heap_wf_pos [OF wf i(1,2)] i(3) by simp_all
    moreover have "x \<noteq> n" using n(3) \<open>heap_index (GLB s x) = i\<close> i(1)
      by (auto simp: in_heap_def NIL_def)
    ultimately show "x \<in> {0..<MAX_NODES} - {n}" by simp
  qed
  have "card {0..<heap_size s} = card (HEAP_ARRAY s ` {0..<heap_size s})"
    by (rule card_image [OF inj, symmetric])
  also have "\<dots> \<le> card ({0..<MAX_NODES} - {n})"
    by (rule card_mono [OF _ sub]) simp
  also have "\<dots> = nat MAX_NODES - 1" using n by simp
  finally have "nat (heap_size s) \<le> nat MAX_NODES - 1" by simp
  then show ?thesis using n by (simp add: MAX_NODES_def)
qed

text \<open>Summary of a successful \<open>heap_insert\<close>.\<close>

lemma heap_insert_ok:
  assumes wf: "heap_wf s" and n: "0 \<le> n" "n < MAX_NODES" "\<not> in_heap s n"
  shows "fst (heap_insert n s) = 0"
    and "heap_wf (snd (heap_insert n s))"
    and "heap_size (snd (heap_insert n s)) = heap_size s + 1"
    and "in_heap (snd (heap_insert n s)) m = (m = n \<or> in_heap s m)"
    and "min_heap s \<Longrightarrow> min_heap (snd (heap_insert n s))"
    and "stdout (snd (heap_insert n s)) = stdout s @
           (if key (GLB s n) = 0
            then [''HeapError: Node '' @ show_int n @ '' does not appear to be initialized.'']
            else [])"
proof -
  define s1 where "s1 = (if key (GLB s n) = 0
      then printf (''HeapError: Node '' @ show_int n @ '' does not appear to be initialized.'') s
      else s)"
  have sz: "heap_size s < MAX_NODES" by (rule heap_not_full [OF wf n])
  have sz0: "0 \<le> heap_size s" using wf by (simp add: heap_wf_def)
  have s1: "heap_wf s1" "\<not> in_heap s1 n" "heap_size s1 = heap_size s"
    "\<And>m. in_heap s1 m = in_heap s m" "min_heap s1 = min_heap s"
    using wf n by (simp_all add: s1_def)
  have eq: "heap_insert n s = (0, bubble_up (heap_size s) (push_last n s1))"
    using sz n by (simp add: heap_insert_eq in_heap_def s1_def Let_def)
  have wf2: "heap_wf (push_last n s1)"
    by (rule heap_wf_push_last [OF s1(1) n(1,2) s1(2)]) (simp add: s1(3) sz)
  have r: "0 \<le> heap_size s" "heap_size s < heap_size (push_last n s1)"
    using sz0 by (simp_all add: s1(3))
  show "fst (heap_insert n s) = 0" by (simp add: eq)
  show "heap_wf (snd (heap_insert n s))"
    unfolding eq snd_conv by (rule heap_wf_bubble_up [OF wf2 r])
  show "heap_size (snd (heap_insert n s)) = heap_size s + 1"
    by (simp add: eq s1(3))
  show "in_heap (snd (heap_insert n s)) m = (m = n \<or> in_heap s m)"
    unfolding eq snd_conv in_heap_bubble_up [OF wf2 r]
    using in_heap_push_last [of s1 n m] sz0 by (simp add: s1(3,4))
  show "min_heap (snd (heap_insert n s))" if "min_heap s"
  proof -
    have "up_ok (push_last n s1) (heap_size s1)"
      by (rule up_ok_push_last) (use that sz0 in \<open>simp_all add: s1\<close>)
    then show ?thesis
      unfolding eq snd_conv using min_heap_bubble_up [of "push_last n s1" "heap_size s"]
      by (simp add: s1(3))
  qed
  show "stdout (snd (heap_insert n s)) = stdout s @
           (if key (GLB s n) = 0
            then [''HeapError: Node '' @ show_int n @ '' does not appear to be initialized.'']
            else [])"
    by (simp add: eq s1_def)
qed

text \<open>Summary of a successful \<open>heap_delete\<close>.\<close>

lemma heap_delete_ok:
  assumes wf: "heap_wf s" and n: "0 \<le> n" "n < MAX_NODES" "in_heap s n"
  shows "fst (heap_delete n s) = 0"
    and "heap_wf (snd (heap_delete n s))"
    and "heap_size (snd (heap_delete n s)) = heap_size s - 1"
    and "in_heap (snd (heap_delete n s)) m = (m \<noteq> n \<and> in_heap s m)"
    and "min_heap s \<Longrightarrow> min_heap (snd (heap_delete n s))"
    and "stdout (snd (heap_delete n s)) = stdout s"
proof -
  define i where "i = heap_index (GLB s n)"
  have nn: "heap_index (GLB s n) \<noteq> NIL" using n(3) by (simp add: in_heap_def)
  note w = heap_wf_node [OF wf n(1,2) nn, folded i_def]
  have eq: "heap_delete n s = (0, delete_fix i (remove_at i s))"
    unfolding i_def by (rule heap_delete_in [OF wf n])
  have wf2: "heap_wf (remove_at i s)" by (rule heap_wf_remove_at [OF wf w(1,2)])
  show "fst (heap_delete n s) = 0" by (simp add: eq)
  show "heap_wf (snd (heap_delete n s))"
    unfolding eq snd_conv by (rule heap_wf_delete_fix [OF wf2 w(1)])
  show "heap_size (snd (heap_delete n s)) = heap_size s - 1" by (simp add: eq)
  show "in_heap (snd (heap_delete n s)) m = (m \<noteq> n \<and> in_heap s m)"
    unfolding eq snd_conv in_heap_delete_fix [OF wf2 w(1)]
    using in_heap_remove_at [OF wf w(1,2), of m] w(3) by simp
  show "min_heap (snd (heap_delete n s))" if "min_heap s"
    unfolding eq snd_conv by (rule min_heap_delete_fix_remove_at [OF that w(1,2)])
  show "stdout (snd (heap_delete n s)) = stdout s" by (simp add: eq)
qed

text \<open>Summary of \<open>heap_pop\<close> on a heap that is not empty.\<close>

lemma heap_pop_ok:
  assumes wf: "heap_wf s" and sz: "0 < heap_size s"
  shows "fst (heap_pop s) = HEAP_ARRAY s 0"
    and "heap_wf (snd (heap_pop s))"
    and "heap_size (snd (heap_pop s)) = heap_size s - 1"
    and "in_heap (snd (heap_pop s)) m = (m \<noteq> HEAP_ARRAY s 0 \<and> in_heap s m)"
    and "min_heap s \<Longrightarrow> min_heap (snd (heap_pop s))"
    and "stdout (snd (heap_pop s)) = stdout s"
proof -
  have wf2: "heap_wf (remove_at 0 s)" by (rule heap_wf_remove_at [OF wf _ sz]) simp
  show "fst (heap_pop s) = HEAP_ARRAY s 0" using sz by (simp add: heap_pop_eq)
  show "heap_wf (snd (heap_pop s))"
    using sz wf2 heap_wf_min_heapify [OF wf2, of 0] by (simp add: heap_pop_eq)
  show "heap_size (snd (heap_pop s)) = heap_size s - 1" using sz by (simp add: heap_pop_eq)
  show "in_heap (snd (heap_pop s)) m = (m \<noteq> HEAP_ARRAY s 0 \<and> in_heap s m)"
    using sz in_heap_remove_at [OF wf _ sz, of m] in_heap_min_heapify [OF wf2, of 0 m]
    by (simp add: heap_pop_eq)
  show "stdout (snd (heap_pop s)) = stdout s" using sz by (simp add: heap_pop_eq)
  show "min_heap (snd (heap_pop s))" if mh: "min_heap s"
  proof (cases "heap_size s - 1 > 0")
    case True
    have "\<not> (0 < (0::int) \<and> hkey (remove_at 0 s) 0 < hkey (remove_at 0 s) (heap_parent 0))"
      by simp
    from down_ok_remove_at [OF mh _ _ this] True
    have "down_ok (remove_at 0 s) 0" by simp
    then have "min_heap (min_heapify 0 (remove_at 0 s))"
      by (rule min_heap_min_heapify) simp
    then show ?thesis using sz True by (simp add: heap_pop_eq)
  next
    case False
    then have "heap_size s - 1 = 0" using sz by simp
    then have "min_heap (remove_at 0 s)" by (simp add: min_heap_def)
    then show ?thesis using sz False by (simp add: heap_pop_eq)
  qed
qed

lemma customers_leave_queue [simp]: "customers (leave_queue idx s) = customers s"
  by (simp add: leave_queue_def Let_def)

lemma tools_leave_queue [simp]: "tools (leave_queue idx s) = tools s"
  by (simp add: leave_queue_def Let_def)

section \<open>The event forwarder\<close>


section \<open>Deleting a node of the heap by identity\<close>

text \<open>A heap of three nodes: node 2 (key 3) at the root, node 1 (key 5), node 3 (key 7).\<close>

definition demo_heap :: SharedMemory where
  "demo_heap =
     (setup_shared_memory 100 500 1 demo_clock)
     \<lparr>GLB := (\<lambda>i. \<lparr>key = 0, heap_index = NIL\<rparr>)
         (1 := \<lparr>key = 5, heap_index = 1\<rparr>,
          2 := \<lparr>key = 3, heap_index = 0\<rparr>,
          3 := \<lparr>key = 7, heap_index = 2\<rparr>),
      HEAP_ARRAY := (\<lambda>i. 0)(0 := 2, 1 := 1, 2 := 3),
      heap_size := 3\<rparr>"

lemma demo_heap_wf: "heap_wf demo_heap"
  by (auto simp: heap_wf_def demo_heap_def MAX_NODES_def NIL_def)

lemma demo_heap_min: "min_heap demo_heap"
proof -
  have "i = 1 \<or> i = 2" if "i \<in> {1..<3}" for i :: int using that by auto
  then show ?thesis
    by (auto simp: min_heap_alt demo_heap_def hkey_def)
qed

text \<open>
  Claim C7. On a heap that satisfies the min-heap property and the back-map consistency,
  \<open>heap_delete\<close> of a node that is in the heap removes that node and no other: its
  back-pointer becomes \<open>NIL\<close>, every other node stays in or out of the heap as it was, no
  key changes, the size decreases by one, and both invariants hold again. For a node that
  is not in the heap, \<open>heap_delete\<close> returns -1 and leaves the heap as it is.
\<close>

theorem heap_delete_by_identity:
  assumes "heap_wf s" "min_heap s"
  shows "(0 \<le> n \<and> n < MAX_NODES \<and> in_heap s n \<longrightarrow>
            fst (heap_delete n s) = 0 \<and>
            heap_index (GLB (snd (heap_delete n s)) n) = NIL \<and>
            (\<forall>m. m \<noteq> n \<longrightarrow> in_heap (snd (heap_delete n s)) m = in_heap s m) \<and>
            (\<forall>m. key (GLB (snd (heap_delete n s)) m) = key (GLB s m)) \<and>
            heap_size (snd (heap_delete n s)) = heap_size s - 1 \<and>
            heap_wf (snd (heap_delete n s)) \<and> min_heap (snd (heap_delete n s))) \<and>
         (\<not> (0 \<le> n \<and> n < MAX_NODES \<and> in_heap s n) \<longrightarrow>
            fst (heap_delete n s) = -1 \<and>
            GLB (snd (heap_delete n s)) = GLB s \<and>
            HEAP_ARRAY (snd (heap_delete n s)) = HEAP_ARRAY s \<and>
            heap_size (snd (heap_delete n s)) = heap_size s)"
proof (intro conjI impI)
  assume n: "0 \<le> n \<and> n < MAX_NODES \<and> in_heap s n"
  then have n': "0 \<le> n" "n < MAX_NODES" "in_heap s n" by simp_all
  note ok = heap_delete_ok [OF assms(1) n']
  show "fst (heap_delete n s) = 0" by (rule ok(1))
  show "heap_index (GLB (snd (heap_delete n s)) n) = NIL"
    using ok(4) [of n] by (simp add: in_heap_def)
  show "\<forall>m. m \<noteq> n \<longrightarrow> in_heap (snd (heap_delete n s)) m = in_heap s m"
    using ok(4) by simp
  show "\<forall>m. key (GLB (snd (heap_delete n s)) m) = key (GLB s m)" by simp
  show "heap_size (snd (heap_delete n s)) = heap_size s - 1" by (rule ok(3))
  show "heap_wf (snd (heap_delete n s))" by (rule ok(2))
  show "min_heap (snd (heap_delete n s))" by (rule ok(5) [OF assms(2)])
next
  assume n: "\<not> (0 \<le> n \<and> n < MAX_NODES \<and> in_heap s n)"
  then have eq: "heap_delete n s =
      (-1, printf (''HeapError: Node '' @ show_int n @ '' is not in the heap.'') s)"
    by (auto simp: heap_delete_eq in_heap_def)
  show "fst (heap_delete n s) = -1" "GLB (snd (heap_delete n s)) = GLB s"
    "HEAP_ARRAY (snd (heap_delete n s)) = HEAP_ARRAY s"
    "heap_size (snd (heap_delete n s)) = heap_size s"
    by (simp_all add: eq)
qed

theorem heap_delete_by_identity_witness:
  "heap_wf demo_heap \<and> min_heap demo_heap \<and>
   0 \<le> (2::int) \<and> 2 < MAX_NODES \<and> in_heap demo_heap 2 \<and>
   fst (heap_delete 2 demo_heap) = 0 \<and>
   heap_index (GLB (snd (heap_delete 2 demo_heap)) 2) = NIL \<and>
   in_heap (snd (heap_delete 2 demo_heap)) 1 \<and> in_heap (snd (heap_delete 2 demo_heap)) 3 \<and>
   heap_size (snd (heap_delete 2 demo_heap)) = 2 \<and>
   heap_wf (snd (heap_delete 2 demo_heap)) \<and> min_heap (snd (heap_delete 2 demo_heap)) \<and>
   \<not> in_heap demo_heap 9 \<and> fst (heap_delete 9 demo_heap) = -1 \<and>
   heap_size (snd (heap_delete 9 demo_heap)) = 3"
proof -
  have v: "in_heap demo_heap 2" "in_heap demo_heap 1" "in_heap demo_heap 3"
    "\<not> in_heap demo_heap 9" "heap_size demo_heap = 3" "(2::int) < MAX_NODES"
    by (simp_all add: in_heap_def demo_heap_def NIL_def MAX_NODES_def)
  show ?thesis
    using heap_delete_by_identity [OF demo_heap_wf demo_heap_min, of 2]
      heap_delete_by_identity [OF demo_heap_wf demo_heap_min, of 9]
      demo_heap_wf demo_heap_min v
    by simp
qed

section \<open>Inserting a node whose key is 0\<close>

text \<open>
  Claim C10. \<open>heap_insert\<close> returns -1 exactly when the heap is full, the index is out of
  range or the node is already in the heap. A node with key 0 is inserted: the call returns
  0, prints the diagnostic, and the node is in the heap, which has one more element and
  satisfies both invariants.
\<close>

theorem heap_insert_zero_key:
  "fst (heap_insert n s) =
     (if heap_size s \<ge> MAX_NODES \<or> n < 0 \<or> n \<ge> MAX_NODES \<or> heap_index (GLB s n) \<noteq> NIL
      then -1 else 0) \<and>
   (heap_wf s \<and> min_heap s \<and> 0 \<le> n \<and> n < MAX_NODES \<and> \<not> in_heap s n \<and> key (GLB s n) = 0 \<longrightarrow>
      fst (heap_insert n s) = 0 \<and>
      in_heap (snd (heap_insert n s)) n \<and>
      (\<forall>m. m \<noteq> n \<longrightarrow> in_heap (snd (heap_insert n s)) m = in_heap s m) \<and>
      (\<forall>m. key (GLB (snd (heap_insert n s)) m) = key (GLB s m)) \<and>
      heap_size (snd (heap_insert n s)) = heap_size s + 1 \<and>
      heap_wf (snd (heap_insert n s)) \<and> min_heap (snd (heap_insert n s)) \<and>
      stdout (snd (heap_insert n s)) = stdout s @
        [''HeapError: Node '' @ show_int n @ '' does not appear to be initialized.''])"
proof (intro conjI impI)
  show "fst (heap_insert n s) =
     (if heap_size s \<ge> MAX_NODES \<or> n < 0 \<or> n \<ge> MAX_NODES \<or> heap_index (GLB s n) \<noteq> NIL
      then -1 else 0)"
    by (simp add: heap_insert_eq Let_def)
next
  assume a: "heap_wf s \<and> min_heap s \<and> 0 \<le> n \<and> n < MAX_NODES \<and> \<not> in_heap s n \<and> key (GLB s n) = 0"
  then have wf: "heap_wf s" and mh: "min_heap s" and n: "0 \<le> n" "n < MAX_NODES" "\<not> in_heap s n"
    and k: "key (GLB s n) = 0" by simp_all
  note ok = heap_insert_ok [OF wf n]
  show "fst (heap_insert n s) = 0" by (rule ok(1))
  show "in_heap (snd (heap_insert n s)) n" by (simp add: ok(4))
  show "\<forall>m. m \<noteq> n \<longrightarrow> in_heap (snd (heap_insert n s)) m = in_heap s m" by (simp add: ok(4))
  show "\<forall>m. key (GLB (snd (heap_insert n s)) m) = key (GLB s m)" by simp
  show "heap_size (snd (heap_insert n s)) = heap_size s + 1" by (rule ok(3))
  show "heap_wf (snd (heap_insert n s))" by (rule ok(2))
  show "min_heap (snd (heap_insert n s))" by (rule ok(5) [OF mh])
  show "stdout (snd (heap_insert n s)) = stdout s @
        [''HeapError: Node '' @ show_int n @ '' does not appear to be initialized.'']"
    using ok(6) k by simp
qed

theorem heap_insert_zero_key_witness:
  "heap_wf demo_heap \<and> min_heap demo_heap \<and> 0 \<le> (4::int) \<and> 4 < MAX_NODES \<and>
   \<not> in_heap demo_heap 4 \<and> key (GLB demo_heap 4) = 0 \<and>
   fst (heap_insert 4 demo_heap) = 0 \<and>
   in_heap (snd (heap_insert 4 demo_heap)) 4 \<and>
   heap_size (snd (heap_insert 4 demo_heap)) = 4 \<and>
   heap_wf (snd (heap_insert 4 demo_heap)) \<and> min_heap (snd (heap_insert 4 demo_heap)) \<and>
   stdout (snd (heap_insert 4 demo_heap))
     = [''HeapError: Node 4 does not appear to be initialized.'']"
proof -
  have v: "\<not> in_heap demo_heap 4" "key (GLB demo_heap 4) = 0" "heap_size demo_heap = 3"
    "(4::int) < MAX_NODES" "stdout demo_heap = []"
    by (simp_all add: in_heap_def demo_heap_def NIL_def MAX_NODES_def setup_shared_memory_def)
  have l: "show_int 4 = ''4''" by (simp add: show_int_def show_nat.simps)
  show ?thesis
    using heap_insert_zero_key [of 4 demo_heap] demo_heap_wf demo_heap_min v
    by (simp add: l)
qed

section \<open>Effect of the scheduler's building blocks\<close>

lemma MAX_CUSTOMERS_eq: "MAX_CUSTOMERS = MAX_NODES"
  by (simp add: MAX_CUSTOMERS_def MAX_NODES_def)

text \<open>The heap predicates read only the three heap fields.\<close>

lemma heap_preds_cong:
  assumes "GLB s' = GLB s" "HEAP_ARRAY s' = HEAP_ARRAY s" "heap_size s' = heap_size s"
  shows "heap_wf s' = heap_wf s" "min_heap s' = min_heap s" "in_heap s' m = in_heap s m"
  using assms by (simp_all add: heap_wf_def min_heap_def in_heap_def hkey_def)

lemma upd_customer_simps [simp]:
  "customers (upd_customer i f s) = (customers s)(i := f (customers s i))"
  "tools (upd_customer i f s) = tools s"
  "num_tools (upd_customer i f s) = num_tools s"
  "GLB (upd_customer i f s) = GLB s"
  "HEAP_ARRAY (upd_customer i f s) = HEAP_ARRAY s"
  "heap_size (upd_customer i f s) = heap_size s"
  "stdout (upd_customer i f s) = stdout s"
  "clock (upd_customer i f s) = clock s"
  "clock_reads (upd_customer i f s) = clock_reads s"
  "waiting_count (upd_customer i f s) = waiting_count s"
  "resting_customers (upd_customer i f s) = resting_customers s"
  "total_customers (upd_customer i f s) = total_customers s"
  "total_share (upd_customer i f s) = total_share s"
  "q (upd_customer i f s) = q s"
  "Q (upd_customer i f s) = Q s"
  "free_customer_count (upd_customer i f s) = free_customer_count s"
  "free_customer_slots (upd_customer i f s) = free_customer_slots s"
  "server_should_exit (upd_customer i f s) = server_should_exit s"
  by (simp_all add: upd_customer_def)

lemma upd_tool_simps [simp]:
  "tools (upd_tool i f s) = (tools s)(i := f (tools s i))"
  "customers (upd_tool i f s) = customers s"
  "num_tools (upd_tool i f s) = num_tools s"
  "GLB (upd_tool i f s) = GLB s"
  "HEAP_ARRAY (upd_tool i f s) = HEAP_ARRAY s"
  "heap_size (upd_tool i f s) = heap_size s"
  "stdout (upd_tool i f s) = stdout s"
  "clock (upd_tool i f s) = clock s"
  "clock_reads (upd_tool i f s) = clock_reads s"
  "waiting_count (upd_tool i f s) = waiting_count s"
  "resting_customers (upd_tool i f s) = resting_customers s"
  "total_customers (upd_tool i f s) = total_customers s"
  "total_share (upd_tool i f s) = total_share s"
  "q (upd_tool i f s) = q s"
  "Q (upd_tool i f s) = Q s"
  "free_customer_count (upd_tool i f s) = free_customer_count s"
  "free_customer_slots (upd_tool i f s) = free_customer_slots s"
  "server_should_exit (upd_tool i f s) = server_should_exit s"
  by (simp_all add: upd_tool_def)

lemma printf_simps [simp]:
  "customers (printf l s) = customers s"
  "tools (printf l s) = tools s"
  "num_tools (printf l s) = num_tools s"
  "clock (printf l s) = clock s"
  "clock_reads (printf l s) = clock_reads s"
  "waiting_count (printf l s) = waiting_count s"
  "resting_customers (printf l s) = resting_customers s"
  "total_customers (printf l s) = total_customers s"
  "total_share (printf l s) = total_share s"
  "q (printf l s) = q s"
  "Q (printf l s) = Q s"
  "free_customer_count (printf l s) = free_customer_count s"
  "free_customer_slots (printf l s) = free_customer_slots s"
  "server_should_exit (printf l s) = server_should_exit s"
  by (simp_all add: printf_def)

lemma heap_preds_upd [simp]:
  "heap_wf (upd_customer i f s) = heap_wf s" "min_heap (upd_customer i f s) = min_heap s"
  "in_heap (upd_customer i f s) m = in_heap s m"
  "heap_wf (upd_tool j g s) = heap_wf s" "min_heap (upd_tool j g s) = min_heap s"
  "in_heap (upd_tool j g s) m = in_heap s m"
  "heap_wf (s\<lparr>waiting_count := w\<rparr>) = heap_wf s" "min_heap (s\<lparr>waiting_count := w\<rparr>) = min_heap s"
  "in_heap (s\<lparr>waiting_count := w\<rparr>) m = in_heap s m"
  "heap_wf (s\<lparr>resting_customers := w\<rparr>) = heap_wf s"
  "min_heap (s\<lparr>resting_customers := w\<rparr>) = min_heap s"
  "in_heap (s\<lparr>resting_customers := w\<rparr>) m = in_heap s m"
  "heap_wf (s\<lparr>total_share := x\<rparr>) = heap_wf s" "min_heap (s\<lparr>total_share := x\<rparr>) = min_heap s"
  "in_heap (s\<lparr>total_share := x\<rparr>) m = in_heap s m"
  "heap_wf (s\<lparr>clock_reads := c\<rparr>) = heap_wf s" "min_heap (s\<lparr>clock_reads := c\<rparr>) = min_heap s"
  "in_heap (s\<lparr>clock_reads := c\<rparr>) m = in_heap s m"
  by (simp_all add: heap_wf_def min_heap_def in_heap_def hkey_def)

text \<open>Changing the key of a node that is not in the heap.\<close>

lemma set_key_outside:
  assumes wf: "heap_wf s" and n: "0 \<le> n" "n < MAX_NODES" "\<not> in_heap s n"
  shows "heap_wf (s\<lparr>GLB := (GLB s)(n := (GLB s n)\<lparr>key := k\<rparr>)\<rparr>)"
    and "in_heap (s\<lparr>GLB := (GLB s)(n := (GLB s n)\<lparr>key := k\<rparr>)\<rparr>) m = in_heap s m"
    and "min_heap s \<Longrightarrow> min_heap (s\<lparr>GLB := (GLB s)(n := (GLB s n)\<lparr>key := k\<rparr>)\<rparr>)"
proof -
  have ne: "HEAP_ARRAY s i \<noteq> n" if "0 \<le> i" "i < heap_size s" for i
    using heap_wf_pos(1) [OF wf that] n(3) that(1) by (auto simp: in_heap_def NIL_def)
  show "heap_wf (s\<lparr>GLB := (GLB s)(n := (GLB s n)\<lparr>key := k\<rparr>)\<rparr>)"
    using wf by (auto simp: heap_wf_def)
  show "in_heap (s\<lparr>GLB := (GLB s)(n := (GLB s n)\<lparr>key := k\<rparr>)\<rparr>) m = in_heap s m"
    by (simp add: in_heap_def)
  show "min_heap (s\<lparr>GLB := (GLB s)(n := (GLB s n)\<lparr>key := k\<rparr>)\<rparr>)" if mh: "min_heap s"
    unfolding min_heap_alt
  proof
    fix i assume "i \<in> {1..<heap_size (s\<lparr>GLB := (GLB s)(n := (GLB s n)\<lparr>key := k\<rparr>)\<rparr>)}"
    then have i: "1 \<le> i" "i < heap_size s" by simp_all
    then have p: "0 \<le> (i - 1) div 2" "(i - 1) div 2 < heap_size s" by auto
    have "hkey s ((i - 1) div 2) \<le> hkey s i" using mh i by (auto simp: min_heap_alt)
    then show "hkey (s\<lparr>GLB := (GLB s)(n := (GLB s n)\<lparr>key := k\<rparr>)\<rparr>) ((i - 1) div 2)
        \<le> hkey (s\<lparr>GLB := (GLB s)(n := (GLB s n)\<lparr>key := k\<rparr>)\<rparr>) i"
      using ne [OF p] ne [of i] i by (simp add: hkey_def)
  qed
qed

lemma leave_queue_props:
  assumes wf: "heap_wf s" and i: "0 \<le> i" "i < MAX_NODES"
  shows "heap_wf (leave_queue i s)"
    and "in_heap (leave_queue i s) m = (m \<noteq> i \<and> in_heap s m)"
    and "key (GLB (leave_queue i s) m) = key (GLB s m)"
    and "stdout (leave_queue i s) = stdout s"
    and "min_heap s \<Longrightarrow> min_heap (leave_queue i s)"
    and "waiting_count (leave_queue i s) = waiting_count s - 1"
    and "clock_reads (leave_queue i s) = clock_reads s"
    and "clock (leave_queue i s) = clock s"
    and "num_tools (leave_queue i s) = num_tools s"
    and "q (leave_queue i s) = q s"
proof -
  define d where "d = (if in_heap s i then snd (heap_delete i s) else s)"
  have eq: "leave_queue i s = d\<lparr>waiting_count := waiting_count s - 1\<rparr>"
    by (simp add: leave_queue_def in_heap_def Let_def d_def)
  have d: "heap_wf d" "in_heap d m = (m \<noteq> i \<and> in_heap s m)" "stdout d = stdout s"
    "min_heap s \<Longrightarrow> min_heap d"
  proof -
    show "heap_wf d" "in_heap d m = (m \<noteq> i \<and> in_heap s m)" "stdout d = stdout s"
      using heap_delete_ok(2,4,6) [OF wf i] wf by (auto simp: d_def)
    show "min_heap d" if "min_heap s"
      using heap_delete_ok(5) [OF wf i _ that] that by (auto simp: d_def)
  qed
  have f: "key (GLB d m) = key (GLB s m)" "clock_reads d = clock_reads s" "clock d = clock s"
    "num_tools d = num_tools s" "q d = q s"
    by (simp_all add: d_def)
  show "heap_wf (leave_queue i s)" by (simp add: eq d)
  show "in_heap (leave_queue i s) m = (m \<noteq> i \<and> in_heap s m)" by (simp add: eq d)
  show "key (GLB (leave_queue i s) m) = key (GLB s m)" by (simp add: eq f)
  show "stdout (leave_queue i s) = stdout s" by (simp add: eq d)
  show "min_heap (leave_queue i s)" if "min_heap s" using that by (simp add: eq d)
  show "waiting_count (leave_queue i s) = waiting_count s - 1" by (simp add: eq)
  show "clock_reads (leave_queue i s) = clock_reads s" by (simp add: eq f)
  show "clock (leave_queue i s) = clock s" by (simp add: eq f)
  show "num_tools (leave_queue i s) = num_tools s" by (simp add: eq f)
  show "q (leave_queue i s) = q s" by (simp add: eq f)
qed

text \<open>The state of \<open>enter_queue\<close> just before \<open>heap_insert\<close>.\<close>

definition enter_queue_pre :: "int \<Rightarrow> SharedMemory \<Rightarrow> SharedMemory" where
  "enter_queue_pre i s =
     (let s = upd_customer i (\<lambda>c. c\<lparr>state := CUSTOMER_STATE_WAITING\<rparr>) s;
          s = upd_customer i (\<lambda>c. c\<lparr>wait_start := clock s (clock_reads s)\<rparr>)
                (s\<lparr>clock_reads := Suc (clock_reads s)\<rparr>)
      in s\<lparr>GLB := (GLB s)(i := (GLB s i)\<lparr>key := share (customers s i)\<rparr>)\<rparr>)"

lemma enter_queue_eq:
  "enter_queue i s =
     (snd (heap_insert i (enter_queue_pre i s)))\<lparr>waiting_count := waiting_count s + 1\<rparr>"
  by (simp add: enter_queue_def enter_queue_pre_def Let_def split_def get_current_time_ms_def)

lemma enter_queue_pre_simps [simp]:
  "customers (enter_queue_pre i s) = (customers s)(i := (customers s i)
      \<lparr>state := CUSTOMER_STATE_WAITING, wait_start := clock s (clock_reads s)\<rparr>)"
  "tools (enter_queue_pre i s) = tools s"
  "num_tools (enter_queue_pre i s) = num_tools s"
  "q (enter_queue_pre i s) = q s"
  "HEAP_ARRAY (enter_queue_pre i s) = HEAP_ARRAY s"
  "heap_size (enter_queue_pre i s) = heap_size s"
  "heap_index (GLB (enter_queue_pre i s) m) = heap_index (GLB s m)"
  "key (GLB (enter_queue_pre i s) m) = (if m = i then share (customers s i) else key (GLB s m))"
  "stdout (enter_queue_pre i s) = stdout s"
  "clock (enter_queue_pre i s) = clock s"
  "clock_reads (enter_queue_pre i s) = Suc (clock_reads s)"
  "total_share (enter_queue_pre i s) = total_share s"
  by (simp_all add: enter_queue_pre_def Let_def)

lemma enter_queue_props:
  assumes wf: "heap_wf s" and i: "0 \<le> i" "i < MAX_NODES" "\<not> in_heap s i"
  shows "heap_wf (enter_queue i s)"
    and "in_heap (enter_queue i s) m = (m = i \<or> in_heap s m)"
    and "key (GLB (enter_queue i s) m) = (if m = i then share (customers s i) else key (GLB s m))"
    and "customers (enter_queue i s) = (customers s)(i := (customers s i)
           \<lparr>state := CUSTOMER_STATE_WAITING, wait_start := clock s (clock_reads s)\<rparr>)"
    and "tools (enter_queue i s) = tools s"
    and "stdout (enter_queue i s) = stdout s @
           (if share (customers s i) = 0
            then [''HeapError: Node '' @ show_int i @ '' does not appear to be initialized.'']
            else [])"
    and "clock_reads (enter_queue i s) = Suc (clock_reads s)"
    and "clock (enter_queue i s) = clock s"
    and "min_heap s \<Longrightarrow> min_heap (enter_queue i s)"
    and "waiting_count (enter_queue i s) = waiting_count s + 1"
    and "num_tools (enter_queue i s) = num_tools s"
proof -
  define p where "p = enter_queue_pre i s"
  have hs: "heap_wf p" "\<not> in_heap p i" "\<And>m. in_heap p m = in_heap s m"
    using wf i by (simp_all add: p_def heap_wf_def in_heap_def)
  note ok = heap_insert_ok [OF hs(1) i(1,2) hs(2)]
  have eq: "enter_queue i s = (snd (heap_insert i p))\<lparr>waiting_count := waiting_count s + 1\<rparr>"
    by (simp add: enter_queue_eq p_def)
  show "heap_wf (enter_queue i s)" by (simp add: eq ok)
  show "in_heap (enter_queue i s) m = (m = i \<or> in_heap s m)" by (simp add: eq ok hs(3))
  show "key (GLB (enter_queue i s) m) = (if m = i then share (customers s i) else key (GLB s m))"
    by (simp add: eq p_def)
  show "customers (enter_queue i s) = (customers s)(i := (customers s i)
           \<lparr>state := CUSTOMER_STATE_WAITING, wait_start := clock s (clock_reads s)\<rparr>)"
    by (simp add: eq p_def)
  show "tools (enter_queue i s) = tools s" by (simp add: eq p_def)
  show "stdout (enter_queue i s) = stdout s @
           (if share (customers s i) = 0
            then [''HeapError: Node '' @ show_int i @ '' does not appear to be initialized.'']
            else [])"
    by (simp add: eq ok(6)) (simp add: p_def)
  show "clock_reads (enter_queue i s) = Suc (clock_reads s)" by (simp add: eq p_def)
  show "clock (enter_queue i s) = clock s" by (simp add: eq p_def)
  show "waiting_count (enter_queue i s) = waiting_count s + 1" by (simp add: eq)
  show "num_tools (enter_queue i s) = num_tools s" by (simp add: eq p_def)
  show "min_heap (enter_queue i s)" if mh: "min_heap s"
  proof -
    have "min_heap p"
      using set_key_outside(3) [OF wf i mh, of "share (customers s i)"]
      by (simp add: p_def min_heap_def hkey_def enter_queue_pre_def Let_def)
    then show ?thesis by (simp add: eq ok(5))
  qed
qed

lemma remove_customer_from_tool_props:
  assumes "current_tool (customers s i) \<noteq> -1"
  defines "u \<equiv> int_cast (clock s (clock_reads s) - session_start (customers s i))"
  shows "customers (remove_customer_from_tool i ev s) =
           (customers s)(i := (customers s i)
              \<lparr>share := share (customers s i) + real_of_int u, current_tool := -1,
               event_pending := True, event_type := ev,
               event_tool_id := tool_id (tools s (current_tool (customers s i)))\<rparr>)"
    and "tools (remove_customer_from_tool i ev s) =
           (tools s)(current_tool (customers s i) := (tools s (current_tool (customers s i)))
              \<lparr>total_usage := total_usage (tools s (current_tool (customers s i))) + u,
               current_user := -1, current_usage := 0\<rparr>)"
    and "GLB (remove_customer_from_tool i ev s) = GLB s"
    and "HEAP_ARRAY (remove_customer_from_tool i ev s) = HEAP_ARRAY s"
    and "heap_size (remove_customer_from_tool i ev s) = heap_size s"
    and "stdout (remove_customer_from_tool i ev s) = stdout s @
           [(if ev = EVENT_TOOL_REMOVED then line_removed else line_leaves)
              (customer_id (customers s i)) (trunc_int (share (customers s i) + real_of_int u))
              (current_tool (customers s i))]"
    and "clock_reads (remove_customer_from_tool i ev s) = Suc (clock_reads s)"
    and "clock (remove_customer_from_tool i ev s) = clock s"
    and "num_tools (remove_customer_from_tool i ev s) = num_tools s"
    and "q (remove_customer_from_tool i ev s) = q s"
    and "waiting_count (remove_customer_from_tool i ev s) = waiting_count s"
  using assms(1) unfolding u_def
  by (simp_all add: remove_customer_from_tool_def Let_def split_def get_current_time_ms_def
      fun_eq_iff)

lemma remove_customer_from_tool_heap:
  "heap_wf (remove_customer_from_tool i ev s) = heap_wf s"
  "min_heap (remove_customer_from_tool i ev s) = min_heap s"
  "in_heap (remove_customer_from_tool i ev s) m = in_heap s m"
  "key (GLB (remove_customer_from_tool i ev s) m) = key (GLB s m)"
  by (simp_all add: remove_customer_from_tool_def Let_def split_def get_current_time_ms_def)

lemma assign_tool_to_customer_props:
  assumes wf: "heap_wf s" and i: "0 \<le> i" "i < MAX_NODES"
  shows "heap_wf (assign_tool_to_customer i t s)"
    and "in_heap (assign_tool_to_customer i t s) m =
           (if state (customers s i) = CUSTOMER_STATE_WAITING then m \<noteq> i \<and> in_heap s m
            else in_heap s m)"
    and "key (GLB (assign_tool_to_customer i t s) m) = key (GLB s m)"
    and "customers (assign_tool_to_customer i t s) =
           (customers s)(i := (customers s i)
              \<lparr>state := CUSTOMER_STATE_USING, current_tool := t,
               session_start := clock s (clock_reads s), event_pending := True,
               event_type := EVENT_TOOL_ASSIGNED, event_tool_id := t\<rparr>)"
    and "tools (assign_tool_to_customer i t s) =
           (tools s)(t := (tools s t)
              \<lparr>current_user := i, current_usage := 0,
               tool_session_start := clock s (clock_reads s)\<rparr>)"
    and "stdout (assign_tool_to_customer i t s) = stdout s @
           [line_assigned (customer_id (customers s i)) (trunc_int (share (customers s i))) t]"
    and "min_heap s \<Longrightarrow> min_heap (assign_tool_to_customer i t s)"
    and "waiting_count (assign_tool_to_customer i t s) =
           (if state (customers s i) = CUSTOMER_STATE_WAITING then waiting_count s - 1
            else waiting_count s)"
proof -
  define a where "a = (if state (customers s i) = CUSTOMER_STATE_WAITING then leave_queue i s else s)"
  note lq = leave_queue_props [OF wf i]
  have a: "heap_wf a" "customers a = customers s" "tools a = tools s" "stdout a = stdout s"
    "clock_reads a = clock_reads s" "clock a = clock s"
    "in_heap a m = (if state (customers s i) = CUSTOMER_STATE_WAITING then m \<noteq> i \<and> in_heap s m
            else in_heap s m)"
    "key (GLB a m) = key (GLB s m)" "min_heap s \<Longrightarrow> min_heap a"
    "waiting_count a = (if state (customers s i) = CUSTOMER_STATE_WAITING then waiting_count s - 1
            else waiting_count s)"
    using lq wf by (simp_all add: a_def)
  have eq: "assign_tool_to_customer i t s =
      printf (line_assigned (customer_id (customers s i)) (trunc_int (share (customers s i))) t)
        (upd_customer i (\<lambda>c. c\<lparr>event_pending := True, event_type := EVENT_TOOL_ASSIGNED,
                        event_tool_id := t\<rparr>)
          (upd_tool t (\<lambda>x. x\<lparr>current_user := i, current_usage := 0,
                        tool_session_start := clock s (clock_reads s)\<rparr>)
            (upd_customer i (\<lambda>c. c\<lparr>state := CUSTOMER_STATE_USING, current_tool := t,
                        session_start := clock s (clock_reads s)\<rparr>)
              (a\<lparr>clock_reads := Suc (clock_reads a)\<rparr>))))"
    by (simp add: assign_tool_to_customer_def Let_def split_def get_current_time_ms_def
        a_def [symmetric] a(2,5,6))
  show "heap_wf (assign_tool_to_customer i t s)" by (simp add: eq a)
  show "in_heap (assign_tool_to_customer i t s) m =
           (if state (customers s i) = CUSTOMER_STATE_WAITING then m \<noteq> i \<and> in_heap s m
            else in_heap s m)"
    by (simp add: eq a(7))
  show "key (GLB (assign_tool_to_customer i t s) m) = key (GLB s m)" by (simp add: eq a(8))
  show "customers (assign_tool_to_customer i t s) =
           (customers s)(i := (customers s i)
              \<lparr>state := CUSTOMER_STATE_USING, current_tool := t,
               session_start := clock s (clock_reads s), event_pending := True,
               event_type := EVENT_TOOL_ASSIGNED, event_tool_id := t\<rparr>)"
    by (simp add: eq a(2) fun_eq_iff)
  show "tools (assign_tool_to_customer i t s) =
           (tools s)(t := (tools s t)
              \<lparr>current_user := i, current_usage := 0,
               tool_session_start := clock s (clock_reads s)\<rparr>)"
    by (simp add: eq a(3))
  show "stdout (assign_tool_to_customer i t s) = stdout s @
           [line_assigned (customer_id (customers s i)) (trunc_int (share (customers s i))) t]"
    by (simp add: eq a(4))
  show "min_heap (assign_tool_to_customer i t s)" if "min_heap s"
    using a(9) [OF that] by (simp add: eq)
  show "waiting_count (assign_tool_to_customer i t s) =
           (if state (customers s i) = CUSTOMER_STATE_WAITING then waiting_count s - 1
            else waiting_count s)"
    by (simp add: eq a(10))
qed

section \<open>The preemption candidate\<close>

text \<open>
  The tool that the specification selects: among the tools with a bound customer, the one
  with the largest \<open>current_usage\<close>, the smallest index among equals.
\<close>

definition busiest_tool :: "SharedMemory \<Rightarrow> int \<Rightarrow> bool" where
  "busiest_tool s t =
     (0 \<le> t \<and> t < num_tools s \<and> current_user (tools s t) \<noteq> -1 \<and>
      (\<forall>j\<in>{0..<num_tools s}. current_user (tools s j) \<noteq> -1 \<longrightarrow>
          current_usage (tools s j) \<le> current_usage (tools s t) \<and>
          (current_usage (tools s j) = current_usage (tools s t) \<longrightarrow> t \<le> j)))"

definition best_upto :: "SharedMemory \<Rightarrow> int \<Rightarrow> int \<Rightarrow> bool" where
  "best_upto s i r =
     ((r = -1 \<and> (\<forall>j\<in>{0..<i}. current_user (tools s j) = -1)) \<or>
      (0 \<le> r \<and> r < i \<and> current_user (tools s r) \<noteq> -1 \<and>
       (\<forall>j\<in>{0..<i}. current_user (tools s j) \<noteq> -1 \<longrightarrow>
           current_usage (tools s j) \<le> current_usage (tools s r) \<and>
           (current_usage (tools s j) = current_usage (tools s r) \<longrightarrow> r \<le> j))))"

lemma ball_upto_Suc:
  "(\<forall>j\<in>{0..<i + 1}. P j) = ((\<forall>j\<in>{0..<i}. P j) \<and> P i)" if "0 \<le> i" for i :: int
proof -
  have "{0..<i + 1} = insert i {0..<i}" using that by auto
  then show ?thesis by auto
qed

lemma preemption_loop_stop: "\<not> i < num_tools s \<Longrightarrow> preemption_loop i cand mx s = cand"
  by (subst preemption_loop.simps) simp

lemma preemption_loop_take:
  "i < num_tools s \<Longrightarrow> current_user (tools s i) \<noteq> -1 \<Longrightarrow>
   current_usage (tools s i) > mx \<or>
     (current_usage (tools s i) = mx \<and> (cand = -1 \<or> i < cand)) \<Longrightarrow>
   preemption_loop i cand mx s = preemption_loop (i + 1) i (current_usage (tools s i)) s"
  by (subst preemption_loop.simps) (simp add: Let_def)

lemma preemption_loop_skip:
  "i < num_tools s \<Longrightarrow>
   \<not> (current_user (tools s i) \<noteq> -1 \<and>
      (current_usage (tools s i) > mx \<or>
       (current_usage (tools s i) = mx \<and> (cand = -1 \<or> i < cand)))) \<Longrightarrow>
   preemption_loop i cand mx s = preemption_loop (i + 1) cand mx s"
  by (subst preemption_loop.simps) (auto simp: Let_def)

lemma best_upto_take:
  assumes "0 \<le> i" "best_upto s i cand" "current_user (tools s i) \<noteq> -1"
    "mx = (if cand = -1 then 0 else current_usage (tools s cand))"
    "current_usage (tools s i) > mx \<or>
       (current_usage (tools s i) = mx \<and> (cand = -1 \<or> i < cand))"
  shows "best_upto s (i + 1) i"
  using assms by (auto simp: best_upto_def ball_upto_Suc)

lemma best_upto_skip:
  assumes "0 \<le> i" "best_upto s i cand"
    "mx = (if cand = -1 then 0 else current_usage (tools s cand))"
    "\<not> (current_user (tools s i) \<noteq> -1 \<and>
      (current_usage (tools s i) > mx \<or>
       (current_usage (tools s i) = mx \<and> (cand = -1 \<or> i < cand))))"
    "current_user (tools s i) \<noteq> -1 \<longrightarrow> 0 \<le> current_usage (tools s i)"
  shows "best_upto s (i + 1) cand"
  using assms by (auto simp: best_upto_def ball_upto_Suc)

lemma preemption_loop_best:
  "(\<forall>j\<in>{0..<num_tools s}. current_user (tools s j) \<noteq> -1 \<longrightarrow>
      0 \<le> current_usage (tools s j)) \<Longrightarrow>
   0 \<le> i \<Longrightarrow> i \<le> num_tools s \<Longrightarrow> best_upto s i cand \<Longrightarrow>
   mx = (if cand = -1 then 0 else current_usage (tools s cand)) \<Longrightarrow>
   best_upto s (num_tools s) (preemption_loop i cand mx s)"
proof (induction "nat (num_tools s - i)" arbitrary: i cand mx)
  case 0
  then have "i = num_tools s" by simp
  then show ?case using 0 by (simp add: preemption_loop_stop)
next
  case (Suc k)
  then have lt: "i < num_tools s" by simp
  have k: "k = nat (num_tools s - (i + 1))" using Suc(2) by simp
  have nn: "current_user (tools s i) \<noteq> -1 \<longrightarrow> 0 \<le> current_usage (tools s i)"
    using Suc.prems(1,2) lt by simp
  show ?case
  proof (cases "current_user (tools s i) \<noteq> -1 \<and>
      (current_usage (tools s i) > mx \<or>
       (current_usage (tools s i) = mx \<and> (cand = -1 \<or> i < cand)))")
    case True
    have b: "best_upto s (i + 1) i"
      by (rule best_upto_take [OF Suc.prems(2,4) _ Suc.prems(5)]) (use True in auto)
    have "best_upto s (num_tools s) (preemption_loop (i + 1) i (current_usage (tools s i)) s)"
      by (rule Suc.hyps(1) [OF k Suc.prems(1) _ _ b]) (use Suc.prems(2) lt in auto)
    then show ?thesis using preemption_loop_take [OF lt, of mx cand] True by auto
  next
    case False
    have b: "best_upto s (i + 1) cand"
      by (rule best_upto_skip [OF Suc.prems(2,4,5) False nn])
    have "best_upto s (num_tools s) (preemption_loop (i + 1) cand mx s)"
      by (rule Suc.hyps(1) [OF k Suc.prems(1) _ _ b Suc.prems(5)]) (use Suc.prems(2) lt in auto)
    then show ?thesis using preemption_loop_skip [OF lt False] by simp
  qed
qed

lemma preemption_loop_busiest:
  assumes "\<forall>j\<in>{0..<num_tools s}. current_user (tools s j) \<noteq> -1 \<longrightarrow>
      0 \<le> current_usage (tools s j)"
    and "busiest_tool s t"
  shows "preemption_loop 0 (-1) 0 s = t"
proof -
  have n: "0 \<le> num_tools s" using assms(2) by (auto simp: busiest_tool_def)
  have "best_upto s 0 (-1)" by (simp add: best_upto_def)
  from preemption_loop_best [OF assms(1) _ n this, of 0]
  have "best_upto s (num_tools s) (preemption_loop 0 (-1) 0 s)" by simp
  then show ?thesis
    using assms(2) unfolding best_upto_def busiest_tool_def
    by (smt (verit) atLeastLessThan_iff)
qed

lemma find_preemption_candidate_busiest:
  assumes "\<forall>j\<in>{0..<num_tools s}. current_user (tools s j) \<noteq> -1 \<longrightarrow>
      0 \<le> current_usage (tools s j)"
    and "busiest_tool s t"
  shows "find_preemption_candidate new_share s =
     (if new_share \<le> share (customers s (current_user (tools s t))) \<and>
         q s \<le> current_usage (tools s t)
      then t else -1)"
proof -
  have "t \<noteq> -1" using assms(2) by (auto simp: busiest_tool_def)
  then show ?thesis
    by (auto simp: find_preemption_candidate_def Let_def preemption_loop_busiest [OF assms])
qed

lemma preemption_loop_cong:
  "tools s' = tools s \<Longrightarrow> num_tools s' = num_tools s \<Longrightarrow>
   preemption_loop i cand mx s' = preemption_loop i cand mx s"
proof (induction "nat (num_tools s - i)" arbitrary: i cand mx)
  case 0
  then show ?case by (simp add: preemption_loop_stop)
next
  case (Suc k)
  then have lt: "i < num_tools s" "i < num_tools s'" by simp_all
  have k: "k = nat (num_tools s - (i + 1))" using Suc(2) by simp
  note ih = Suc.hyps(1) [OF k Suc.prems]
  show ?case
  proof (cases "current_user (tools s i) \<noteq> -1 \<and>
      (current_usage (tools s i) > mx \<or>
       (current_usage (tools s i) = mx \<and> (cand = -1 \<or> i < cand)))")
    case True
    have "preemption_loop i cand mx s' = preemption_loop (i + 1) i (current_usage (tools s' i)) s'"
      by (rule preemption_loop_take [OF lt(2)]) (use True Suc.prems in auto)
    also have "\<dots> = preemption_loop (i + 1) i (current_usage (tools s i)) s"
      by (simp add: ih Suc.prems)
    also have "\<dots> = preemption_loop i cand mx s"
      by (rule preemption_loop_take [OF lt(1), symmetric]) (use True in auto)
    finally show ?thesis .
  next
    case False
    have "preemption_loop i cand mx s' = preemption_loop (i + 1) cand mx s'"
      by (rule preemption_loop_skip [OF lt(2)]) (use False Suc.prems in auto)
    also have "\<dots> = preemption_loop (i + 1) cand mx s" by (rule ih)
    also have "\<dots> = preemption_loop i cand mx s"
      by (rule preemption_loop_skip [OF lt(1) False, symmetric])
    finally show ?thesis .
  qed
qed

lemma find_free_tool_loop_stop:
  "\<not> i < num_tools s \<Longrightarrow> find_free_tool_loop i b m s = b"
  by (subst find_free_tool_loop.simps) simp

lemma find_free_tool_loop_take:
  "i < num_tools s \<Longrightarrow>
   current_user (tools s i) = -1 \<and>
     (total_usage (tools s i) < m \<or> (total_usage (tools s i) = m \<and> (b = -1 \<or> i < b))) \<Longrightarrow>
   find_free_tool_loop i b m s = find_free_tool_loop (i + 1) i (total_usage (tools s i)) s"
  by (subst find_free_tool_loop.simps) (erule (1) if_P [THEN trans, OF _ if_P])

lemma find_free_tool_loop_skip:
  "i < num_tools s \<Longrightarrow>
   \<not> (current_user (tools s i) = -1 \<and>
     (total_usage (tools s i) < m \<or> (total_usage (tools s i) = m \<and> (b = -1 \<or> i < b)))) \<Longrightarrow>
   find_free_tool_loop i b m s = find_free_tool_loop (i + 1) b m s"
  by (subst find_free_tool_loop.simps) (erule (1) if_P [THEN trans, OF _ if_not_P])

lemma find_free_tool_loop_cong:
  "tools s' = tools s \<Longrightarrow> num_tools s' = num_tools s \<Longrightarrow>
   find_free_tool_loop i b m s' = find_free_tool_loop i b m s"
proof (induction "nat (num_tools s - i)" arbitrary: i b m)
  case 0
  then show ?case by (simp add: find_free_tool_loop_stop)
next
  case (Suc k)
  then have lt: "i < num_tools s" "i < num_tools s'" by simp_all
  have k: "k = nat (num_tools s - (i + 1))" using Suc(2) by simp
  note ih = Suc.hyps(1) [OF k Suc.prems]
  show ?case
  proof (cases "current_user (tools s i) = -1 \<and>
     (total_usage (tools s i) < m \<or> (total_usage (tools s i) = m \<and> (b = -1 \<or> i < b)))")
    case True
    have "find_free_tool_loop i b m s' = find_free_tool_loop (i + 1) i (total_usage (tools s' i)) s'"
      by (rule find_free_tool_loop_take [OF lt(2)]) (use True Suc.prems in auto)
    also have "\<dots> = find_free_tool_loop (i + 1) i (total_usage (tools s i)) s"
      by (simp add: ih Suc.prems)
    also have "\<dots> = find_free_tool_loop i b m s"
      by (rule find_free_tool_loop_take [OF lt(1) True, symmetric])
    finally show ?thesis .
  next
    case False
    have "find_free_tool_loop i b m s' = find_free_tool_loop (i + 1) b m s'"
      by (rule find_free_tool_loop_skip [OF lt(2)]) (use False Suc.prems in auto)
    also have "\<dots> = find_free_tool_loop (i + 1) b m s" by (rule ih)
    also have "\<dots> = find_free_tool_loop i b m s"
      by (rule find_free_tool_loop_skip [OF lt(1) False, symmetric])
    finally show ?thesis .
  qed
qed

lemma find_free_tool_cong:
  "tools s' = tools s \<Longrightarrow> num_tools s' = num_tools s \<Longrightarrow> find_free_tool s' = find_free_tool s"
  unfolding find_free_tool_def by (rule find_free_tool_loop_cong)

lemma find_preemption_candidate_cong:
  "tools s' = tools s \<Longrightarrow> num_tools s' = num_tools s \<Longrightarrow>
   (\<And>m. share (customers s' m) = share (customers s m)) \<Longrightarrow>
   q s' = q s \<Longrightarrow> find_preemption_candidate x s' = find_preemption_candidate x s"
  using preemption_loop_cong [of s' s 0 "-1" 0]
  by (simp add: find_preemption_candidate_def Let_def)

section \<open>Placement rule of \<open>handle_request\<close> when no tool is free\<close>

text \<open>The state of \<open>handle_request\<close> when it looks for a tool.\<close>

definition request_pre :: "int \<Rightarrow> int \<Rightarrow> SharedMemory \<Rightarrow> SharedMemory" where
  "request_pre idx duration s =
     upd_customer idx (\<lambda>c. c\<lparr>request_duration := duration, remaining_duration := duration\<rparr>)
       (if state (customers s idx) = CUSTOMER_STATE_RESTING
        then s\<lparr>resting_customers := resting_customers s - 1\<rparr>
        else if state (customers s idx) = CUSTOMER_STATE_WAITING
        then leave_queue idx s
        else s)"

lemma handle_request_eq:
  "handle_request idx duration s =
     (let p = request_pre idx duration s;
          tool = find_free_tool p
      in if tool \<noteq> -1 then assign_tool_to_customer idx tool p
         else
           let tool = find_preemption_candidate (share (customers p idx)) p
           in if tool \<noteq> -1
              then assign_tool_to_customer idx tool
                     (enter_queue (current_user (tools p tool))
                        (remove_customer_from_tool (current_user (tools p tool))
                           EVENT_TOOL_REMOVED p))
              else enter_queue idx p)"
  by (simp add: handle_request_def request_pre_def Let_def)

lemma request_pre_props:
  assumes wf: "heap_wf s" and idx: "0 \<le> idx" "idx < MAX_NODES"
  shows "heap_wf (request_pre idx d s)"
    and "tools (request_pre idx d s) = tools s"
    and "num_tools (request_pre idx d s) = num_tools s"
    and "q (request_pre idx d s) = q s"
    and "clock (request_pre idx d s) = clock s"
    and "clock_reads (request_pre idx d s) = clock_reads s"
    and "stdout (request_pre idx d s) = stdout s"
    and "customers (request_pre idx d s) = (customers s)(idx := (customers s idx)
           \<lparr>request_duration := d, remaining_duration := d\<rparr>)"
    and "in_heap (request_pre idx d s) m =
           (if state (customers s idx) = CUSTOMER_STATE_WAITING then m \<noteq> idx \<and> in_heap s m
            else in_heap s m)"
    and "key (GLB (request_pre idx d s) m) = key (GLB s m)"
    and "min_heap s \<Longrightarrow> min_heap (request_pre idx d s)"
  using leave_queue_props [OF wf idx] wf
  by (auto simp: request_pre_def)

lemma busiest_tool_cong:
  "tools s' = tools s \<Longrightarrow> num_tools s' = num_tools s \<Longrightarrow> busiest_tool s' t = busiest_tool s t"
  by (simp add: busiest_tool_def)

text \<open>
  Claim C1. \<open>handle_request\<close> finds no free tool. Let \<open>t\<close> be the tool with the largest
  \<open>current_usage\<close> among the tools with a bound customer (the smallest index among equals)
  and \<open>H\<close> its holder. If \<open>H.share \<ge> requester.share\<close> and the \<open>current_usage\<close> of \<open>t\<close> is
  at least \<open>q\<close>, then \<open>H\<close> is removed with a \<open>TOOL_REMOVED\<close> line, is in state Waiting and in
  the queue with its share as key, and the requester holds \<open>t\<close>. Otherwise the requester is
  in state Waiting and in the queue, and every tool is as before.
\<close>

theorem handle_request_preemption_rule:
  assumes wf: "heap_wf s"
    and idx: "0 \<le> idx" "idx < MAX_CUSTOMERS"
    and st: "state (customers s idx) = CUSTOMER_STATE_RESTING \<or>
             state (customers s idx) = CUSTOMER_STATE_WAITING"
    and inq: "in_heap s idx = (state (customers s idx) = CUSTOMER_STATE_WAITING)"
    and nofree: "find_free_tool s = -1"
    and nonneg: "\<forall>j\<in>{0..<num_tools s}. current_user (tools s j) \<noteq> -1 \<longrightarrow>
                   0 \<le> current_usage (tools s j)"
    and busiest: "busiest_tool s t"
    and H: "H = current_user (tools s t)" "0 \<le> H" "H < MAX_CUSTOMERS"
      "state (customers s H) = CUSTOMER_STATE_USING" "current_tool (customers s H) = t"
      "\<not> in_heap s H"
  shows "let s' = handle_request idx duration s;
             sh = share (customers s H)
                    + real_of_int (int_cast (clock s (clock_reads s) - session_start (customers s H)))
         in if share (customers s idx) \<le> share (customers s H) \<and> q s \<le> current_usage (tools s t)
            then share (customers s' H) = sh \<and>
                 state (customers s' H) = CUSTOMER_STATE_WAITING \<and>
                 current_tool (customers s' H) = -1 \<and>
                 event_type (customers s' H) = EVENT_TOOL_REMOVED \<and>
                 in_heap s' H \<and> key (GLB s' H) = sh \<and>
                 state (customers s' idx) = CUSTOMER_STATE_USING \<and>
                 current_tool (customers s' idx) = t \<and>
                 current_user (tools s' t) = idx \<and>
                 \<not> in_heap s' idx \<and>
                 stdout s' = stdout s
                   @ [line_removed (customer_id (customers s H)) (trunc_int sh) t]
                   @ (if sh = 0
                      then [''HeapError: Node '' @ show_int H
                              @ '' does not appear to be initialized.'']
                      else [])
                   @ [line_assigned (customer_id (customers s idx))
                        (trunc_int (share (customers s idx))) t]
            else state (customers s' idx) = CUSTOMER_STATE_WAITING \<and>
                 in_heap s' idx \<and> key (GLB s' idx) = share (customers s idx) \<and>
                 tools s' = tools s \<and>
                 (\<forall>m. m \<noteq> idx \<longrightarrow> customers s' m = customers s m) \<and>
                 (\<forall>m. m \<noteq> idx \<longrightarrow> in_heap s' m = in_heap s m)"
proof -
  define p where "p = request_pre idx duration s"
  have idx': "idx < MAX_NODES" and H': "H < MAX_NODES"
    using idx(2) H(3) by (simp_all add: MAX_CUSTOMERS_eq)
  note pp = request_pre_props [OF wf idx(1) idx', of duration, folded p_def]
  have ne: "H \<noteq> idx" using st H(4) by auto
  have t: "0 \<le> t" "t \<noteq> -1" using busiest by (auto simp: busiest_tool_def)
  have free: "find_free_tool p = -1"
    using find_free_tool_cong [OF pp(2,3)] nofree by simp
  have shp: "share (customers p m) = share (customers s m)" for m
    by (simp add: pp(8))
  have cand: "find_preemption_candidate (share (customers p idx)) p =
      (if share (customers s idx) \<le> share (customers s H) \<and> q s \<le> current_usage (tools s t)
       then t else -1)"
    using find_preemption_candidate_cong [OF pp(2,3) shp pp(4)]
      find_preemption_candidate_busiest [OF nonneg busiest] H(1)
    by (simp add: shp)
  have inp: "in_heap p m = (m \<noteq> idx \<and> in_heap s m)" for m
    using pp(9) [of m] inq by auto
  show ?thesis
  proof (cases "share (customers s idx) \<le> share (customers s H) \<and> q s \<le> current_usage (tools s t)")
    case True
    define r where "r = remove_customer_from_tool H EVENT_TOOL_REMOVED p"
    define e where "e = enter_queue H r"
    have eq: "handle_request idx duration s = assign_tool_to_customer idx t e"
      using free cand True t H(1)
      by (simp add: handle_request_eq p_def [symmetric] Let_def e_def r_def pp(2))
    have ctp: "current_tool (customers p H) \<noteq> -1" "current_tool (customers p H) = t"
      using ne H(5) t by (simp_all add: pp(8))
    note rp = remove_customer_from_tool_props [OF ctp(1), of EVENT_TOOL_REMOVED, folded r_def]
    note rh = remove_customer_from_tool_heap [of H EVENT_TOOL_REMOVED p, folded r_def]
    have wfr: "heap_wf r" "\<not> in_heap r H"
      using pp(1) H(6) by (simp_all add: rh inp)
    note ep = enter_queue_props [OF wfr(1) H(2) H' wfr(2), folded e_def]
    note ap = assign_tool_to_customer_props [OF ep(1) idx(1) idx', of t]
    define sh where "sh = share (customers s H)
        + real_of_int (int_cast (clock s (clock_reads s) - session_start (customers s H)))"
    have crH: "share (customers r H) = sh" "customer_id (customers r H) = customer_id (customers s H)"
      "current_tool (customers r H) = -1" "event_type (customers r H) = EVENT_TOOL_REMOVED"
      using ne by (simp_all add: rp(1) pp(5,6,8) sh_def)
    have cridx: "customers r idx = customers p idx"
      using ne by (simp add: rp(1))
    have ceidx: "customers e idx = customers p idx"
      using ne by (simp add: ep(4) cridx)
    have ste: "state (customers e idx) = state (customers s idx)"
      by (simp add: ceidx pp(8))
    have out: "stdout e = stdout s
                   @ [line_removed (customer_id (customers s H)) (trunc_int sh) t]
                   @ (if sh = 0
                      then [''HeapError: Node '' @ show_int H
                              @ '' does not appear to be initialized.'']
                      else [])"
      using ne ctp(2) by (simp add: ep(6) rp(6) crH(1) pp(5,6,7,8) sh_def)
    have 1: "share (customers (assign_tool_to_customer idx t e) H) = sh"
      "state (customers (assign_tool_to_customer idx t e) H) = CUSTOMER_STATE_WAITING"
      "current_tool (customers (assign_tool_to_customer idx t e) H) = -1"
      "event_type (customers (assign_tool_to_customer idx t e) H) = EVENT_TOOL_REMOVED"
      using ne by (simp_all add: ap(4) ep(4) crH)
    have 2: "in_heap (assign_tool_to_customer idx t e) H"
      "key (GLB (assign_tool_to_customer idx t e) H) = sh"
      using ne by (simp_all add: ap(2,3) ep(2,3) crH)
    have 3: "state (customers (assign_tool_to_customer idx t e) idx) = CUSTOMER_STATE_USING"
      "current_tool (customers (assign_tool_to_customer idx t e) idx) = t"
      "current_user (tools (assign_tool_to_customer idx t e) t) = idx"
      by (simp_all add: ap(4,5))
    have 4: "\<not> in_heap (assign_tool_to_customer idx t e) idx"
      using ne st inq by (auto simp: ap(2) ep(2) rh(3) inp ste)
    have 5: "stdout (assign_tool_to_customer idx t e) = stdout e
         @ [line_assigned (customer_id (customers s idx)) (trunc_int (share (customers s idx))) t]"
      by (simp add: ap(6) ceidx pp(8))
    show ?thesis
      unfolding Let_def eq sh_def [symmetric] using True 1 2 3 4 5 by (simp add: out)
  next
    case False
    have eq: "handle_request idx duration s = enter_queue idx p"
      using free cand False
      by (simp add: handle_request_eq p_def [symmetric] Let_def)
    have nin: "\<not> in_heap p idx" by (simp add: inp)
    note ep = enter_queue_props [OF pp(1) idx(1) idx' nin]
    have 1: "state (customers (enter_queue idx p) idx) = CUSTOMER_STATE_WAITING"
      "in_heap (enter_queue idx p) idx"
      "key (GLB (enter_queue idx p) idx) = share (customers s idx)"
      "tools (enter_queue idx p) = tools s"
      by (simp_all add: ep(2,3,4,5) pp(2,8))
    have 2: "\<forall>m. m \<noteq> idx \<longrightarrow> customers (enter_queue idx p) m = customers s m"
      "\<forall>m. m \<noteq> idx \<longrightarrow> in_heap (enter_queue idx p) m = in_heap s m"
      by (simp_all add: ep(2,4) pp(8) inp)
    show ?thesis
      using False 1 2 by (simp add: Let_def eq)
  qed
qed

text \<open>Customer slot 5 rests with share 0 while slot 7 holds the only tool; in
  \<open>demo_busy\<close> the tool has been in use for 150 ms at the last tick.\<close>

definition demo_two :: SharedMemory where
  "demo_two =
     upd_customer 5
       (\<lambda>c. c\<lparr>customer_id := 4002, is_allocated := True, state := CUSTOMER_STATE_RESTING,
               share := 0\<rparr>)
       demo_using"

definition demo_busy :: SharedMemory where
  "demo_busy = upd_tool 0 (\<lambda>t. t\<lparr>current_usage := 150\<rparr>) demo_two"

lemma demo_two_values:
  "heap_size demo_two = 0" "GLB demo_two = (\<lambda>i. \<lparr>key = 0, heap_index = NIL\<rparr>)"
  "num_tools demo_two = 1" "q demo_two = 100" "Q demo_two = 500"
  "current_user (tools demo_two 0) = 7" "current_usage (tools demo_two 0) = 0"
  "state (customers demo_two 5) = CUSTOMER_STATE_RESTING"
  "state (customers demo_two 7) = CUSTOMER_STATE_USING"
  "share (customers demo_two 5) = 0" "share (customers demo_two 7) = 25 / 2"
  "current_tool (customers demo_two 7) = 0" "session_start (customers demo_two 7) = 1020"
  "customer_id (customers demo_two 5) = 4002" "customer_id (customers demo_two 7) = 4001"
  "clock demo_two (clock_reads demo_two) = 1050" "stdout demo_two = []"
  "customers demo_two 3 = customers (setup_shared_memory 100 500 1 demo_clock) 3"
  by (simp_all add: demo_two_def demo_using_def setup_shared_memory_def demo_clock_def)

lemma int_upto_1: "{0..<1::int} = {0}"
  by auto

lemma demo_two_wf: "heap_wf demo_two"
  by (simp add: heap_wf_def demo_two_values MAX_NODES_def)

lemma demo_two_no_free: "find_free_tool demo_two = -1"
  by (simp add: find_free_tool_def find_free_tool_loop.simps demo_two_values)

lemma demo_two_busiest: "busiest_tool demo_two 0"
  by (simp add: busiest_tool_def demo_two_values int_upto_1)

lemma demo_busy_values:
  "heap_size demo_busy = 0" "GLB demo_busy = (\<lambda>i. \<lparr>key = 0, heap_index = NIL\<rparr>)"
  "num_tools demo_busy = 1" "q demo_busy = 100" "Q demo_busy = 500"
  "current_user (tools demo_busy 0) = 7" "current_usage (tools demo_busy 0) = 150"
  "state (customers demo_busy 5) = CUSTOMER_STATE_RESTING"
  "state (customers demo_busy 7) = CUSTOMER_STATE_USING"
  "share (customers demo_busy 5) = 0" "share (customers demo_busy 7) = 25 / 2"
  "current_tool (customers demo_busy 7) = 0" "session_start (customers demo_busy 7) = 1020"
  "customer_id (customers demo_busy 5) = 4002" "customer_id (customers demo_busy 7) = 4001"
  "clock demo_busy (clock_reads demo_busy) = 1050" "stdout demo_busy = []"
  by (simp_all add: demo_busy_def demo_two_values)

lemma demo_busy_wf: "heap_wf demo_busy"
  by (simp add: heap_wf_def demo_busy_values MAX_NODES_def)

lemma demo_busy_no_free: "find_free_tool demo_busy = -1"
  by (simp add: find_free_tool_def find_free_tool_loop.simps demo_busy_values)

lemma demo_busy_busiest: "busiest_tool demo_busy 0"
  by (simp add: busiest_tool_def demo_busy_values int_upto_1)

theorem handle_request_preemption_rule_witness:
  "heap_wf demo_busy \<and> find_free_tool demo_busy = -1 \<and> busiest_tool demo_busy 0 \<and>
   current_user (tools demo_busy 0) = 7 \<and>
   share (customers demo_busy 5) \<le> share (customers demo_busy 7) \<and>
   q demo_busy \<le> current_usage (tools demo_busy 0) \<and>
   state (customers (handle_request 5 300 demo_busy) 7) = CUSTOMER_STATE_WAITING \<and>
   share (customers (handle_request 5 300 demo_busy) 7) = 85 / 2 \<and>
   in_heap (handle_request 5 300 demo_busy) 7 \<and>
   key (GLB (handle_request 5 300 demo_busy) 7) = 85 / 2 \<and>
   state (customers (handle_request 5 300 demo_busy) 5) = CUSTOMER_STATE_USING \<and>
   current_user (tools (handle_request 5 300 demo_busy) 0) = 5 \<and>
   stdout (handle_request 5 300 demo_busy) =
     [''Customer 4001 with share 42 is removed from the tool 0.'',
      ''Customer 4002 with share 0 is assigned to the tool 0.''] \<and>
   heap_wf demo_two \<and> find_free_tool demo_two = -1 \<and> busiest_tool demo_two 0 \<and>
   \<not> q demo_two \<le> current_usage (tools demo_two 0) \<and>
   state (customers (handle_request 5 300 demo_two) 5) = CUSTOMER_STATE_WAITING \<and>
   in_heap (handle_request 5 300 demo_two) 5 \<and>
   current_user (tools (handle_request 5 300 demo_two) 0) = 7"
proof -
  have h: "(0::int) \<le> 5" "(5::int) < MAX_CUSTOMERS" "(0::int) \<le> 7" "(7::int) < MAX_CUSTOMERS"
    by (simp_all add: MAX_CUSTOMERS_def)
  have l: "line_removed 4001 42 0 = ''Customer 4001 with share 42 is removed from the tool 0.''"
    "line_assigned 4002 0 0 = ''Customer 4002 with share 0 is assigned to the tool 0.''"
    by (simp_all add: line_removed_def line_assigned_def show_int_def show_nat.simps)
  have t: "trunc_int (85 / 2) = 42" "trunc_int 0 = 0" by (simp_all add: trunc_int_def)
  have hy: "state (customers demo_busy 5) = CUSTOMER_STATE_RESTING \<or>
             state (customers demo_busy 5) = CUSTOMER_STATE_WAITING"
    "in_heap demo_busy 5 = (state (customers demo_busy 5) = CUSTOMER_STATE_WAITING)"
    "\<forall>j\<in>{0..<num_tools demo_busy}. current_user (tools demo_busy j) \<noteq> -1 \<longrightarrow>
                   0 \<le> current_usage (tools demo_busy j)"
    "7 = current_user (tools demo_busy 0)"
    "state (customers demo_busy 7) = CUSTOMER_STATE_USING"
    "current_tool (customers demo_busy 7) = 0" "\<not> in_heap demo_busy 7"
    by (simp_all add: demo_busy_values in_heap_def int_upto_1)
  note r = handle_request_preemption_rule [OF demo_busy_wf h(1,2) hy(1,2) demo_busy_no_free
      hy(3) demo_busy_busiest hy(4) h(3,4) hy(5,6,7), of 300]
  have a: "let s' = handle_request 5 300 demo_busy in
      share (customers s' 7) = 85 / 2 \<and> state (customers s' 7) = CUSTOMER_STATE_WAITING \<and>
      in_heap s' 7 \<and> key (GLB s' 7) = 85 / 2 \<and>
      state (customers s' 5) = CUSTOMER_STATE_USING \<and> current_user (tools s' 0) = 5 \<and>
      stdout s' = [line_removed 4001 (trunc_int (85 / 2)) 0, line_assigned 4002 (trunc_int 0) 0]"
    using r by (simp add: demo_busy_values Let_def int_cast_def)
  have hz: "state (customers demo_two 5) = CUSTOMER_STATE_RESTING \<or>
             state (customers demo_two 5) = CUSTOMER_STATE_WAITING"
    "in_heap demo_two 5 = (state (customers demo_two 5) = CUSTOMER_STATE_WAITING)"
    "\<forall>j\<in>{0..<num_tools demo_two}. current_user (tools demo_two j) \<noteq> -1 \<longrightarrow>
                   0 \<le> current_usage (tools demo_two j)"
    "7 = current_user (tools demo_two 0)"
    "state (customers demo_two 7) = CUSTOMER_STATE_USING"
    "current_tool (customers demo_two 7) = 0" "\<not> in_heap demo_two 7"
    by (simp_all add: demo_two_values in_heap_def int_upto_1)
  note r2 = handle_request_preemption_rule [OF demo_two_wf h(1,2) hz(1,2) demo_two_no_free
      hz(3) demo_two_busiest hz(4) h(3,4) hz(5,6,7), of 300]
  have b: "let s' = handle_request 5 300 demo_two in
      state (customers s' 5) = CUSTOMER_STATE_WAITING \<and> in_heap s' 5 \<and> tools s' = tools demo_two"
    using r2 by (simp add: demo_two_values Let_def)
  show ?thesis
    using a b demo_busy_wf demo_busy_no_free demo_busy_busiest
      demo_two_wf demo_two_no_free demo_two_busiest
    by (simp add: Let_def demo_busy_values demo_two_values l t)
qed

section \<open>Which node \<open>heap_insert\<close> leaves at the root\<close>

lemma up_ok_root:
  assumes "up_ok s i"
  shows "0 \<le> k \<Longrightarrow> k < i \<Longrightarrow> k < heap_size s \<Longrightarrow> hkey s 0 \<le> hkey s k"
proof (induction "nat k" arbitrary: k rule: less_induct)
  case less
  show ?case
  proof (cases "k = 0")
    case True
    then show ?thesis by simp
  next
    case False
    then have k: "1 \<le> k" using less.prems by simp
    have p: "0 \<le> (k - 1) div 2" "(k - 1) div 2 < k" using k by auto
    have "hkey s 0 \<le> hkey s ((k - 1) div 2)"
      by (rule less.hyps) (use p less.prems in auto)
    also have "\<dots> \<le> hkey s k"
      using assms k less.prems by (auto simp: up_ok_def)
    finally show ?thesis .
  qed
qed

lemma root_bubble_up:
  "up_ok s i \<Longrightarrow> 0 \<le> i \<Longrightarrow> i < heap_size s \<Longrightarrow>
   HEAP_ARRAY (bubble_up i s) 0 = (if hkey s i < hkey s 0 then HEAP_ARRAY s i else HEAP_ARRAY s 0)"
proof (induction i s rule: bubble_up.induct)
  case (1 i s)
  show ?case
  proof (cases "0 < i \<and> hkey s i < hkey s (heap_parent i)")
    case True
    have hp: "heap_parent i = (i - 1) div 2" using True by (simp add: heap_parent_pos)
    have p: "0 \<le> heap_parent i" "heap_parent i < i" unfolding hp using True by auto
    have a: "up_ok (heap_swap i (heap_parent i) s) (heap_parent i)"
      unfolding hp by (rule up_ok_step [OF "1.prems"(1) _ "1.prems"(3)]) (use True hp in auto)
    have b: "heap_parent i < heap_size (heap_swap i (heap_parent i) s)"
      using p "1.prems"(3) by simp
    note ih = "1.IH" [OF True a p(1) b]
    have r: "heap_parent i \<noteq> 0 \<Longrightarrow> hkey s 0 \<le> hkey s (heap_parent i)"
      by (rule up_ok_root [OF "1.prems"(1) _ p(2)]) (use p "1.prems"(3) in auto)
    show ?thesis
    proof (cases "heap_parent i = 0")
      case z: True
      then show ?thesis
        unfolding bubble_up_unfold_True [OF True] ih
        using True by (simp add: hkey_heap_swap HEAP_ARRAY_heap_swap)
    next
      case nz: False
      then show ?thesis
        unfolding bubble_up_unfold_True [OF True] ih
        using True p by (auto simp: hkey_heap_swap HEAP_ARRAY_heap_swap)
    qed
  next
    case False
    show ?thesis
    proof (cases "i = 0")
      case True
      then show ?thesis unfolding bubble_up_unfold_False [OF False] by simp
    next
      case nz: False
      then have i: "0 < i" using "1.prems"(2) by simp
      have hp: "heap_parent i = (i - 1) div 2" using i by (simp add: heap_parent_pos)
      have p: "0 \<le> heap_parent i" "heap_parent i < i" unfolding hp using i by auto
      have "hkey s 0 \<le> hkey s (heap_parent i)"
        by (rule up_ok_root [OF "1.prems"(1) p]) (use p "1.prems"(3) in auto)
      moreover have "hkey s (heap_parent i) \<le> hkey s i" using False i by auto
      ultimately show ?thesis unfolding bubble_up_unfold_False [OF False] by simp
    qed
  qed
qed

lemma root_heap_insert:
  assumes wf: "heap_wf s" and mh: "min_heap s"
    and n: "0 \<le> n" "n < MAX_NODES" "\<not> in_heap s n" and sz: "0 < heap_size s"
  shows "HEAP_ARRAY (snd (heap_insert n s)) 0 =
           (if key (GLB s n) < key (GLB s (HEAP_ARRAY s 0)) then n else HEAP_ARRAY s 0)"
proof -
  define s1 where "s1 = (if key (GLB s n) = 0
      then printf (''HeapError: Node '' @ show_int n @ '' does not appear to be initialized.'') s
      else s)"
  have s1: "heap_size s1 = heap_size s" "HEAP_ARRAY s1 = HEAP_ARRAY s" "GLB s1 = GLB s"
    "min_heap s1"
    using mh by (simp_all add: s1_def)
  have full: "heap_size s < MAX_NODES" by (rule heap_not_full [OF wf n])
  have eq: "heap_insert n s = (0, bubble_up (heap_size s) (push_last n s1))"
    using full n by (simp add: heap_insert_eq in_heap_def s1_def Let_def)
  have up: "up_ok (push_last n s1) (heap_size s)"
    using up_ok_push_last [OF s1(4), of n] sz by (simp add: s1(1))
  have k: "hkey (push_last n s1) (heap_size s) = key (GLB s n)"
    "hkey (push_last n s1) 0 = key (GLB s (HEAP_ARRAY s 0))"
    "HEAP_ARRAY (push_last n s1) (heap_size s) = n"
    "HEAP_ARRAY (push_last n s1) 0 = HEAP_ARRAY s 0"
    using sz by (simp_all add: hkey_def push_last_def s1)
  show ?thesis
    unfolding eq snd_conv
    using root_bubble_up [OF up, unfolded k] sz by (simp add: s1(1))
qed

section \<open>The forced preemption at \<open>Q\<close> in \<open>tool_process\<close>\<close>

lemma enter_queue_root:
  assumes wf: "heap_wf s" and mh: "min_heap s"
    and n: "0 \<le> n" "n < MAX_NODES" "\<not> in_heap s n" and sz: "0 < heap_size s"
  shows "HEAP_ARRAY (enter_queue n s) 0 =
           (if share (customers s n) < key (GLB s (HEAP_ARRAY s 0)) then n else HEAP_ARRAY s 0)"
    and "heap_size (enter_queue n s) = heap_size s + 1"
proof -
  define p where "p = enter_queue_pre n s"
  have ne: "HEAP_ARRAY s 0 \<noteq> n"
    using heap_wf_pos(1) [OF wf _ sz] n(3) by (auto simp: in_heap_def NIL_def)
  have hs: "heap_wf p" "\<not> in_heap p n" "0 < heap_size p"
    using wf n sz by (simp_all add: p_def heap_wf_def in_heap_def)
  have mp: "min_heap p"
    using set_key_outside(3) [OF wf n mh, of "share (customers s n)"]
    by (simp add: p_def min_heap_def hkey_def enter_queue_pre_def Let_def)
  have eq: "enter_queue n s = (snd (heap_insert n p))\<lparr>waiting_count := waiting_count s + 1\<rparr>"
    by (simp add: enter_queue_eq p_def)
  show "HEAP_ARRAY (enter_queue n s) 0 =
           (if share (customers s n) < key (GLB s (HEAP_ARRAY s 0)) then n else HEAP_ARRAY s 0)"
    using root_heap_insert [OF hs(1) mp n(1,2) hs(2,3)] ne
    by (simp add: eq) (simp add: p_def)
  show "heap_size (enter_queue n s) = heap_size s + 1"
    using heap_insert_ok(3) [OF hs(1) n(1,2) hs(2)] by (simp add: eq) (simp add: p_def)
qed

text \<open>The state of a tick of \<open>tool_process\<close> once \<open>current_usage\<close> and
  \<open>remaining_duration\<close> are updated.\<close>

definition tick_pre :: "int \<Rightarrow> SharedMemory \<Rightarrow> SharedMemory" where
  "tick_pre tid s =
     (let elapsed = int_cast (clock s (clock_reads s) - tool_session_start (tools s tid));
          user = current_user (tools s tid);
          remaining = request_duration (customers s user) - elapsed
      in upd_customer user
           (\<lambda>c. c\<lparr>remaining_duration := (if remaining < 0 then 0 else remaining)\<rparr>)
           (upd_tool tid (\<lambda>t. t\<lparr>current_usage := elapsed\<rparr>)
              (s\<lparr>clock_reads := Suc (clock_reads s)\<rparr>)))"

lemma tool_process_Q_eq:
  assumes "\<not> server_should_exit s" "current_user (tools s tid) \<noteq> -1"
    "int_cast (clock s (clock_reads s) - tool_session_start (tools s tid))
       < request_duration (customers s (current_user (tools s tid)))"
    "Q s \<le> int_cast (clock s (clock_reads s) - tool_session_start (tools s tid))"
    "0 < heap_size s"
  shows "tool_process tid s =
     assign_next_from_queue tid
       (enter_queue (current_user (tools s tid))
          (remove_customer_from_tool (current_user (tools s tid)) EVENT_TOOL_REMOVED
             (tick_pre tid s)))"
  using assms
  by (simp add: tool_process_def tick_pre_def Let_def split_def get_current_time_ms_def)

lemma tick_pre_simps [simp]:
  "GLB (tick_pre tid s) = GLB s" "HEAP_ARRAY (tick_pre tid s) = HEAP_ARRAY s"
  "heap_size (tick_pre tid s) = heap_size s" "stdout (tick_pre tid s) = stdout s"
  "clock (tick_pre tid s) = clock s" "clock_reads (tick_pre tid s) = Suc (clock_reads s)"
  "num_tools (tick_pre tid s) = num_tools s"
  "heap_wf (tick_pre tid s) = heap_wf s" "min_heap (tick_pre tid s) = min_heap s"
  "in_heap (tick_pre tid s) m = in_heap s m"
  "share (customers (tick_pre tid s) m) = share (customers s m)"
  "state (customers (tick_pre tid s) m) = state (customers s m)"
  "customer_id (customers (tick_pre tid s) m) = customer_id (customers s m)"
  "current_tool (customers (tick_pre tid s) m) = current_tool (customers s m)"
  "session_start (customers (tick_pre tid s) m) = session_start (customers s m)"
  "current_user (tools (tick_pre tid s) t) = current_user (tools s t)"
  "tool_id (tools (tick_pre tid s) t) = tool_id (tools s t)"
  by (simp_all add: tick_pre_def Let_def heap_wf_def min_heap_def in_heap_def hkey_def)

lemma assign_next_from_queue_props:
  assumes wf: "heap_wf s" and sz: "0 < heap_size s"
  defines "w \<equiv> HEAP_ARRAY s 0"
  shows "current_user (tools (assign_next_from_queue tid s) tid) = w"
    and "customers (assign_next_from_queue tid s) =
           (customers s)(w := (customers s w)
              \<lparr>state := CUSTOMER_STATE_USING, current_tool := tid,
               session_start := clock s (clock_reads s), event_pending := True,
               event_type := EVENT_TOOL_ASSIGNED, event_tool_id := tid\<rparr>)"
    and "in_heap (assign_next_from_queue tid s) m = (m \<noteq> w \<and> in_heap s m)"
    and "key (GLB (assign_next_from_queue tid s) m) = key (GLB s m)"
    and "stdout (assign_next_from_queue tid s) = stdout s @
           [line_assigned (customer_id (customers s w)) (trunc_int (share (customers s w))) tid]"
    and "heap_wf (assign_next_from_queue tid s)"
proof -
  note pw = heap_wf_pos [OF wf _ sz, simplified, folded w_def]
  note pop = heap_pop_ok [OF wf sz, folded w_def]
  have w: "w \<noteq> NIL" "0 \<le> w" "w < MAX_NODES" using pw by (simp_all add: NIL_def)
  have eq: "assign_next_from_queue tid s = assign_tool_to_customer w tid (snd (heap_pop s))"
    using sz w pop(1) by (simp add: assign_next_from_queue_def split_def Let_def)
  note ap = assign_tool_to_customer_props [OF pop(2) w(2,3), of tid]
  show "current_user (tools (assign_next_from_queue tid s) tid) = w"
    by (simp add: eq ap(5))
  show "customers (assign_next_from_queue tid s) =
           (customers s)(w := (customers s w)
              \<lparr>state := CUSTOMER_STATE_USING, current_tool := tid,
               session_start := clock s (clock_reads s), event_pending := True,
               event_type := EVENT_TOOL_ASSIGNED, event_tool_id := tid\<rparr>)"
    by (simp add: eq ap(4))
  show "in_heap (assign_next_from_queue tid s) m = (m \<noteq> w \<and> in_heap s m)"
    by (auto simp: eq ap(2) pop(4))
  show "key (GLB (assign_next_from_queue tid s) m) = key (GLB s m)"
    by (simp add: eq ap(3))
  show "stdout (assign_next_from_queue tid s) = stdout s @
           [line_assigned (customer_id (customers s w)) (trunc_int (share (customers s w))) tid]"
    by (simp add: eq ap(6) pop(6))
  show "heap_wf (assign_next_from_queue tid s)" by (simp add: eq ap(1))
qed

lemma tool_process_Q_tick:
  assumes wf: "heap_wf s" and mh: "min_heap s"
    and run: "\<not> server_should_exit s"
    and H: "H = current_user (tools s tid)" "0 \<le> H" "H < MAX_CUSTOMERS"
      "current_tool (customers s H) = tid" "tid \<noteq> -1" "\<not> in_heap s H"
    and notdone: "int_cast (clock s (clock_reads s) - tool_session_start (tools s tid))
                    < request_duration (customers s H)"
    and Qe: "Q s \<le> int_cast (clock s (clock_reads s) - tool_session_start (tools s tid))"
    and sz: "0 < heap_size s"
  defines "sh \<equiv> share (customers s H)
             + real_of_int (int_cast (clock s (Suc (clock_reads s)) - session_start (customers s H)))"
  defines "w \<equiv> (if sh < key (GLB s (HEAP_ARRAY s 0)) then H else HEAP_ARRAY s 0)"
  shows "share (customers (tool_process tid s) H) = sh"
    and "current_user (tools (tool_process tid s) tid) = w"
    and "state (customers (tool_process tid s) w) = CUSTOMER_STATE_USING"
    and "in_heap (tool_process tid s) m = (m \<noteq> w \<and> (m = H \<or> in_heap s m))"
    and "w \<noteq> H \<Longrightarrow> state (customers (tool_process tid s) H) = CUSTOMER_STATE_WAITING"
    and "key (GLB (tool_process tid s) H) = sh"
    and "stdout (tool_process tid s) = stdout s
           @ [line_removed (customer_id (customers s H)) (trunc_int sh) tid]
           @ (if sh = 0
              then [''HeapError: Node '' @ show_int H @ '' does not appear to be initialized.'']
              else [])
           @ [line_assigned (customer_id (customers s w))
                (trunc_int (if w = H then sh else share (customers s w))) tid]"
proof -
  define p where "p = tick_pre tid s"
  define r where "r = remove_customer_from_tool H EVENT_TOOL_REMOVED p"
  define e where "e = enter_queue H r"
  have H': "H < MAX_NODES" using H(3) by (simp add: MAX_CUSTOMERS_eq)
  have Hn: "current_user (tools s tid) \<noteq> -1" using H(1,2) by simp
  have eq: "tool_process tid s = assign_next_from_queue tid e"
    using tool_process_Q_eq [OF run Hn _ Qe sz] notdone H(1)
    by (simp add: e_def r_def p_def)
  have ctp: "current_tool (customers p H) \<noteq> -1"
    using H(4,5) by (simp add: p_def)
  note rp = remove_customer_from_tool_props [OF ctp, of EVENT_TOOL_REMOVED, folded r_def]
  note rh = remove_customer_from_tool_heap [of H EVENT_TOOL_REMOVED p, folded r_def]
  have wfr: "heap_wf r" "\<not> in_heap r H" "min_heap r" "0 < heap_size r"
    using wf mh H(6) sz by (simp_all add: rh rp(5) p_def)
  note ep = enter_queue_props [OF wfr(1) H(2) H' wfr(2), folded e_def]
  note er = enter_queue_root [OF wfr(1,3) H(2) H' wfr(2,4), folded e_def]
  have shr: "share (customers r H) = sh" "customer_id (customers r H) = customer_id (customers s H)"
    by (simp_all add: rp(1) p_def sh_def)
  have other: "m \<noteq> H \<Longrightarrow> share (customers r m) = share (customers s m)"
    "m \<noteq> H \<Longrightarrow> customer_id (customers r m) = customer_id (customers s m)" for m
    by (simp_all add: rp(1) p_def)
  have keyr: "key (GLB r m) = key (GLB s m)" "HEAP_ARRAY r = HEAP_ARRAY s" for m
    by (simp_all add: rh rp(4) p_def)
  have root: "HEAP_ARRAY e 0 = w"
    by (simp add: er(1) shr keyr w_def)
  have sze: "0 < heap_size e" using er(2) wfr(4) by simp
  note np = assign_next_from_queue_props [OF ep(1) sze, of tid, unfolded root]
  have ce: "share (customers e m) = share (customers r m)"
    "customer_id (customers e m) = customer_id (customers r m)" for m
    by (simp_all add: ep(4))
  have sa: "share (customers (assign_next_from_queue tid e) m) = share (customers e m)" for m
    by (simp add: np(2))
  show "share (customers (tool_process tid s) H) = sh"
    by (simp add: eq sa ce shr)
  show "current_user (tools (tool_process tid s) tid) = w"
    by (simp add: eq np(1))
  show "state (customers (tool_process tid s) w) = CUSTOMER_STATE_USING"
    by (simp add: eq np(2))
  show "in_heap (tool_process tid s) m = (m \<noteq> w \<and> (m = H \<or> in_heap s m))"
    by (simp add: eq np(3) ep(2) rh p_def)
  show "state (customers (tool_process tid s) H) = CUSTOMER_STATE_WAITING" if "w \<noteq> H"
    using that by (simp add: eq np(2) ep(4))
  show "key (GLB (tool_process tid s) H) = sh"
    by (simp add: eq np(4) ep(3) shr)
  have out: "stdout e = stdout s
           @ [line_removed (customer_id (customers s H)) (trunc_int sh) tid]
           @ (if sh = 0
              then [''HeapError: Node '' @ show_int H @ '' does not appear to be initialized.'']
              else [])"
    using H(4) by (simp add: ep(6) rp(6) shr p_def sh_def)
  have cw: "customer_id (customers e w) = customer_id (customers s w)"
    "share (customers e w) = (if w = H then sh else share (customers s w))"
    using shr other [of w] by (auto simp: ce)
  show "stdout (tool_process tid s) = stdout s
           @ [line_removed (customer_id (customers s H)) (trunc_int sh) tid]
           @ (if sh = 0
              then [''HeapError: Node '' @ show_int H @ '' does not appear to be initialized.'']
              else [])
           @ [line_assigned (customer_id (customers s w))
                (trunc_int (if w = H then sh else share (customers s w))) tid]"
    unfolding eq np(5) cw out by simp
qed

text \<open>
  Slot 7 holds the only tool since time 1020 with share 12.5 and a request of 2000 ms; slot 5
  waits in the queue. The clock reads 1650, then 1700: the tick finds \<open>elapsed = 630\<close>,
  above \<open>Q = 500\<close>. In \<open>demo_q_high\<close> the waiter has share 2000, in \<open>demo_q_low\<close> share 0.
\<close>

definition demo_q :: "real \<Rightarrow> SharedMemory" where
  "demo_q k =
     (upd_customer 5
        (\<lambda>c. c\<lparr>customer_id := 4002, is_allocated := True, state := CUSTOMER_STATE_WAITING,
                share := k\<rparr>)
        demo_using)
     \<lparr>GLB := (\<lambda>i. \<lparr>key = 0, heap_index = NIL\<rparr>)(5 := \<lparr>key = k, heap_index = 0\<rparr>),
      HEAP_ARRAY := (\<lambda>i. 0)(0 := 5),
      heap_size := 1,
      waiting_count := 1,
      clock := (\<lambda>n. 1600 + 50 * int n)\<rparr>"

definition demo_q_high :: SharedMemory where
  "demo_q_high = demo_q 2000"

definition demo_q_low :: SharedMemory where
  "demo_q_low = demo_q 0"

lemma demo_q_values:
  "heap_size (demo_q k) = 1" "HEAP_ARRAY (demo_q k) 0 = 5"
  "key (GLB (demo_q k) 5) = k" "\<not> server_should_exit (demo_q k)"
  "Q (demo_q k) = 500" "current_user (tools (demo_q k) 0) = 7"
  "tool_session_start (tools (demo_q k) 0) = 1020"
  "clock (demo_q k) (clock_reads (demo_q k)) = 1650"
  "clock (demo_q k) (Suc (clock_reads (demo_q k))) = 1700"
  "request_duration (customers (demo_q k) 7) = 2000"
  "current_tool (customers (demo_q k) 7) = 0"
  "session_start (customers (demo_q k) 7) = 1020"
  "share (customers (demo_q k) 7) = 25 / 2" "share (customers (demo_q k) 5) = k"
  "customer_id (customers (demo_q k) 7) = 4001" "customer_id (customers (demo_q k) 5) = 4002"
  "state (customers (demo_q k) 5) = CUSTOMER_STATE_WAITING"
  "in_heap (demo_q k) 5" "\<not> in_heap (demo_q k) 7" "stdout (demo_q k) = []"
  by (simp_all add: demo_q_def demo_using_def setup_shared_memory_def in_heap_def NIL_def)

lemma demo_q_wf: "heap_wf (demo_q k)"
  by (auto simp: heap_wf_def demo_q_def MAX_NODES_def NIL_def int_upto_1)

lemma demo_q_min: "min_heap (demo_q k)"
  by (simp add: min_heap_def demo_q_values)

text \<open>
  Claim C2, as the code has it. On a tick of \<open>tool_process\<close> on which the bound customer
  \<open>H\<close> has not completed, \<open>elapsed \<ge> Q\<close> and the queue is not empty, whatever the shares:
  the \<open>TOOL_REMOVED\<close> line is printed with the updated share, \<open>H\<close> is inserted into the queue
  with the updated share as key, and the minimum of the queue is popped and bound to the
  tool. The customer popped is \<open>H\<close> itself when its updated share is strictly below the key
  of the waiter at the root; otherwise it is that waiter, and \<open>H\<close> is in state Waiting and in
  the queue.
\<close>

theorem tool_process_forced_preemption:
  assumes "heap_wf s" "min_heap s" "\<not> server_should_exit s"
    and "H = current_user (tools s tid)" "0 \<le> H" "H < MAX_CUSTOMERS"
      "current_tool (customers s H) = tid" "tid \<noteq> -1" "\<not> in_heap s H"
    and "int_cast (clock s (clock_reads s) - tool_session_start (tools s tid))
           < request_duration (customers s H)"
    and "Q s \<le> int_cast (clock s (clock_reads s) - tool_session_start (tools s tid))"
    and "0 < heap_size s"
  shows "let sh = share (customers s H)
                   + real_of_int (int_cast (clock s (Suc (clock_reads s)) - session_start (customers s H)));
             w = (if sh < key (GLB s (HEAP_ARRAY s 0)) then H else HEAP_ARRAY s 0);
             s' = tool_process tid s
         in stdout s' = stdout s
              @ [line_removed (customer_id (customers s H)) (trunc_int sh) tid]
              @ (if sh = 0
                 then [''HeapError: Node '' @ show_int H @ '' does not appear to be initialized.'']
                 else [])
              @ [line_assigned (customer_id (customers s w))
                   (trunc_int (if w = H then sh else share (customers s w))) tid] \<and>
            share (customers s' H) = sh \<and>
            current_user (tools s' tid) = w \<and>
            state (customers s' w) = CUSTOMER_STATE_USING \<and>
            (\<forall>m. in_heap s' m = (m \<noteq> w \<and> (m = H \<or> in_heap s m))) \<and>
            (w \<noteq> H \<longrightarrow>
               state (customers s' H) = CUSTOMER_STATE_WAITING \<and> in_heap s' H \<and>
               key (GLB s' H) = sh)"
proof -
  note t = tool_process_Q_tick [OF assms]
  show ?thesis
    unfolding Let_def using t(1,2,3,5,6) by (simp add: t(4) t(7))
qed

theorem tool_process_forced_preemption_witness:
  "heap_wf demo_q_low \<and> min_heap demo_q_low \<and> 0 < heap_size demo_q_low \<and>
   current_user (tools demo_q_low 0) = 7 \<and>
   Q demo_q_low \<le> int_cast (clock demo_q_low (clock_reads demo_q_low)
                    - tool_session_start (tools demo_q_low 0)) \<and>
   stdout (tool_process 0 demo_q_low) =
     [''Customer 4001 with share 692 is removed from the tool 0.'',
      ''Customer 4002 with share 0 is assigned to the tool 0.''] \<and>
   share (customers (tool_process 0 demo_q_low) 7) = 1385 / 2 \<and>
   current_user (tools (tool_process 0 demo_q_low) 0) = 5 \<and>
   state (customers (tool_process 0 demo_q_low) 5) = CUSTOMER_STATE_USING \<and>
   state (customers (tool_process 0 demo_q_low) 7) = CUSTOMER_STATE_WAITING \<and>
   in_heap (tool_process 0 demo_q_low) 7 \<and> \<not> in_heap (tool_process 0 demo_q_low) 5 \<and>
   key (GLB (tool_process 0 demo_q_low) 7) = 1385 / 2"
proof -
  have h: "\<not> server_should_exit demo_q_low" "7 = current_user (tools demo_q_low 0)"
    "(0::int) \<le> 7" "7 < MAX_CUSTOMERS" "current_tool (customers demo_q_low 7) = 0"
    "(0::int) \<noteq> -1" "\<not> in_heap demo_q_low 7"
    "int_cast (clock demo_q_low (clock_reads demo_q_low) - tool_session_start (tools demo_q_low 0))
           < request_duration (customers demo_q_low 7)"
    "Q demo_q_low \<le> int_cast (clock demo_q_low (clock_reads demo_q_low)
           - tool_session_start (tools demo_q_low 0))"
    "0 < heap_size demo_q_low"
    by (simp_all add: demo_q_low_def demo_q_values MAX_CUSTOMERS_def int_cast_def)
  have wf: "heap_wf demo_q_low" "min_heap demo_q_low"
    by (simp_all add: demo_q_low_def demo_q_wf demo_q_min)
  have l: "line_removed 4001 692 0 = ''Customer 4001 with share 692 is removed from the tool 0.''"
    "line_assigned 4002 0 0 = ''Customer 4002 with share 0 is assigned to the tool 0.''"
    by (simp_all add: line_removed_def line_assigned_def show_int_def show_nat.simps)
  have tr: "trunc_int (1385 / 2) = 692" "trunc_int 0 = 0" by (simp_all add: trunc_int_def)
  note r = tool_process_forced_preemption [OF wf h]
  have a: "let s' = tool_process 0 demo_q_low in
      stdout s' = [line_removed 4001 (trunc_int (1385 / 2)) 0, line_assigned 4002 (trunc_int 0) 0] \<and>
      share (customers s' 7) = 1385 / 2 \<and> current_user (tools s' 0) = 5 \<and>
      state (customers s' 5) = CUSTOMER_STATE_USING \<and>
      state (customers s' 7) = CUSTOMER_STATE_WAITING \<and> in_heap s' 7 \<and> \<not> in_heap s' 5 \<and>
      key (GLB s' 7) = 1385 / 2"
    using r by (simp add: Let_def demo_q_values [of 0, folded demo_q_low_def] int_cast_def)
  show ?thesis
    using a wf h(9,10) by (simp add: Let_def l tr demo_q_values [of 0, folded demo_q_low_def])
qed

text \<open>
  The claim as the specification words it fails on \<open>demo_q_high\<close>: the holder's updated
  share 692.5 is below the waiter's 2000, and after the tick the holder is Using the tool
  again while the waiter is still in the queue.
\<close>

theorem tool_process_forced_preemption_counterexample:
  "heap_wf demo_q_high \<and> min_heap demo_q_high \<and> 0 < heap_size demo_q_high \<and>
   current_user (tools demo_q_high 0) = 7 \<and>
   int_cast (clock demo_q_high (clock_reads demo_q_high) - tool_session_start (tools demo_q_high 0))
     < request_duration (customers demo_q_high 7) \<and>
   Q demo_q_high \<le> int_cast (clock demo_q_high (clock_reads demo_q_high)
                    - tool_session_start (tools demo_q_high 0)) \<and>
   state (customers demo_q_high 5) = CUSTOMER_STATE_WAITING \<and> in_heap demo_q_high 5 \<and>
   state (customers (tool_process 0 demo_q_high) 7) = CUSTOMER_STATE_USING \<and>
   \<not> in_heap (tool_process 0 demo_q_high) 7 \<and>
   current_user (tools (tool_process 0 demo_q_high) 0) = 7 \<and>
   in_heap (tool_process 0 demo_q_high) 5"
proof -
  have h: "\<not> server_should_exit demo_q_high" "7 = current_user (tools demo_q_high 0)"
    "(0::int) \<le> 7" "7 < MAX_CUSTOMERS" "current_tool (customers demo_q_high 7) = 0"
    "(0::int) \<noteq> -1" "\<not> in_heap demo_q_high 7"
    "int_cast (clock demo_q_high (clock_reads demo_q_high) - tool_session_start (tools demo_q_high 0))
           < request_duration (customers demo_q_high 7)"
    "Q demo_q_high \<le> int_cast (clock demo_q_high (clock_reads demo_q_high)
           - tool_session_start (tools demo_q_high 0))"
    "0 < heap_size demo_q_high"
    by (simp_all add: demo_q_high_def demo_q_values MAX_CUSTOMERS_def int_cast_def)
  have wf: "heap_wf demo_q_high" "min_heap demo_q_high"
    by (simp_all add: demo_q_high_def demo_q_wf demo_q_min)
  note t = tool_process_Q_tick [OF wf h]
  have a: "state (customers (tool_process 0 demo_q_high) 7) = CUSTOMER_STATE_USING"
    "current_user (tools (tool_process 0 demo_q_high) 0) = 7"
    "\<not> in_heap (tool_process 0 demo_q_high) 7" "in_heap (tool_process 0 demo_q_high) 5"
    using t(2,3) t(4) [of 7] t(4) [of 5]
    by (simp_all add: demo_q_values [of 2000, folded demo_q_high_def] int_cast_def)
  note v = demo_q_values [of 2000, folded demo_q_high_def]
  show ?thesis
    using a wf h(8,9,10) by (simp add: v)
qed

section \<open>The variant of test\_extract/hw1/hw1.c\<close>

text \<open>
  The functions of \<open>code/hw1_submission/test_extract/hw1/hw1.c\<close> that \<open>handle_request\<close>
  calls and that differ from \<open>code/hw1.c\<close>. The variant prints the share with \<open>%.0f\<close>,
  which rounds to the nearest integer, halves to even.
\<close>

definition round_half_even :: "real \<Rightarrow> int" where
  "round_half_even x =
     (let f = \<lfloor>x\<rfloor>; d = x - real_of_int f
      in if d < 1 / 2 then f else if 1 / 2 < d then f + 1 else if even f then f else f + 1)"

function find_free_tool_loop_variant :: "int \<Rightarrow> int \<Rightarrow> int \<Rightarrow> SharedMemory \<Rightarrow> int" where
  "find_free_tool_loop_variant i best_tool min_usage s =
     (if i < num_tools s
      then (if current_user (tools s i) = -1 \<and> total_usage (tools s i) < min_usage
            then find_free_tool_loop_variant (i + 1) i (total_usage (tools s i)) s
            else find_free_tool_loop_variant (i + 1) best_tool min_usage s)
      else best_tool)"
  by pat_completeness auto
termination
  by (relation "measure (\<lambda>(i, b, m, s). nat (num_tools s - i))") auto

declare find_free_tool_loop_variant.simps [simp del]

definition find_free_tool_variant :: "SharedMemory \<Rightarrow> int" where
  "find_free_tool_variant s = find_free_tool_loop_variant 0 (-1) LLONG_MAX s"

function preemption_loop_variant :: "int \<Rightarrow> int \<Rightarrow> int \<Rightarrow> SharedMemory \<Rightarrow> int" where
  "preemption_loop_variant i candidate max_usage s =
     (if i < num_tools s
      then (let user_idx = current_user (tools s i);
                usage = current_usage (tools s i)
            in if user_idx \<noteq> -1 \<and> usage > max_usage
               then preemption_loop_variant (i + 1) i usage s
               else preemption_loop_variant (i + 1) candidate max_usage s)
      else candidate)"
  by pat_completeness auto
termination
  by (relation "measure (\<lambda>(i, c, m, s). nat (num_tools s - i))") auto

declare preemption_loop_variant.simps [simp del]

definition find_preemption_candidate_variant :: "real \<Rightarrow> SharedMemory \<Rightarrow> int" where
  "find_preemption_candidate_variant new_share s =
     (let candidate = preemption_loop_variant 0 (-1) 0 s
      in if candidate = -1 then -1
         else
           let user_idx = current_user (tools s candidate);
               c = customers s user_idx
           in if share c < new_share then -1
              else if current_usage (tools s candidate) < q s then -1
              else candidate)"

definition assign_tool_to_customer_variant :: "int \<Rightarrow> int \<Rightarrow> SharedMemory \<Rightarrow> SharedMemory" where
  "assign_tool_to_customer_variant customer_idx tid s =
     (let (now, s) = get_current_time_ms s;
          s = upd_customer customer_idx
                (\<lambda>c. c\<lparr>state := CUSTOMER_STATE_USING, current_tool := tid,
                        session_start := now\<rparr>) s;
          s = upd_tool tid
                (\<lambda>t. t\<lparr>current_user := customer_idx, current_usage := 0,
                        tool_session_start := session_start (customers s customer_idx)\<rparr>) s;
          s = (if cust_heap_index (customers s customer_idx) \<noteq> -1 \<and>
                  cust_heap_index (customers s customer_idx) < heap_size s
               then (let s = snd (heap_delete (cust_heap_index (customers s customer_idx)) s)
                     in s\<lparr>waiting_count := waiting_count s - 1\<rparr>)
               else s);
          s = upd_customer customer_idx
                (\<lambda>c. c\<lparr>event_pending := True, event_type := EVENT_TOOL_ASSIGNED,
                        event_tool_id := tid\<rparr>) s
      in printf (line_assigned (customer_id (customers s customer_idx))
                   (round_half_even (share (customers s customer_idx))) tid) s)"

definition remove_customer_from_tool_variant :: "int \<Rightarrow> EventType \<Rightarrow> SharedMemory \<Rightarrow> SharedMemory" where
  "remove_customer_from_tool_variant customer_idx event s =
     (if current_tool (customers s customer_idx) = -1 then s
      else
        let tid = current_tool (customers s customer_idx);
            (now, s) = get_current_time_ms s;
            usage = int_cast (now - session_start (customers s customer_idx));
            s = upd_customer customer_idx (\<lambda>c. c\<lparr>share := share c + real_of_int usage\<rparr>) s;
            s = s\<lparr>total_share := total_share s + real_of_int usage\<rparr>;
            s = upd_tool tid (\<lambda>t. t\<lparr>total_usage := total_usage t + usage\<rparr>) s;
            c = customers s customer_idx;
            s = (if event = EVENT_TOOL_REMOVED
                 then printf (line_removed (customer_id c) (round_half_even (share c))
                                (current_tool c)) s
                 else printf (line_leaves (customer_id c) (round_half_even (share c))
                                (current_tool c)) s);
            s = upd_tool tid (\<lambda>t. t\<lparr>current_user := -1, current_usage := 0\<rparr>) s;
            s = upd_customer customer_idx (\<lambda>c. c\<lparr>current_tool := -1\<rparr>) s
        in upd_customer customer_idx
             (\<lambda>c. c\<lparr>event_pending := True, event_type := event,
                     event_tool_id := tool_id (tools s tid)\<rparr>) s)"

text \<open>
  \<open>handle_request\<close> of the variant: a customer in state Waiting is not taken out of the
  queue first. The block that enqueues a customer is the one of \<open>code/hw1.c\<close>.
\<close>

definition handle_request_variant :: "int \<Rightarrow> int \<Rightarrow> SharedMemory \<Rightarrow> SharedMemory" where
  "handle_request_variant customer_idx duration s =
     (let s = (if state (customers s customer_idx) = CUSTOMER_STATE_RESTING
               then s\<lparr>resting_customers := resting_customers s - 1\<rparr>
               else s);
          s = upd_customer customer_idx
                (\<lambda>c. c\<lparr>request_duration := duration, remaining_duration := duration\<rparr>) s;
          tool = find_free_tool_variant s
      in if tool \<noteq> -1 then assign_tool_to_customer_variant customer_idx tool s
         else
           let tool = find_preemption_candidate_variant (share (customers s customer_idx)) s
           in if tool \<noteq> -1
              then
                let old_user = current_user (tools s tool);
                    s = remove_customer_from_tool_variant old_user EVENT_TOOL_REMOVED s;
                    s = enter_queue old_user s
                in assign_tool_to_customer_variant customer_idx tool s
              else enter_queue customer_idx s)"

text \<open>
  One tool, \<open>q = 100\<close>. Customer A (slot 1023) holds the tool since time 1000, and the last
  tick set \<open>current_usage = 200\<close>. Customer B (slot 1022) sent \<open>REQUEST 1000\<close> at time 1050
  and waits in the queue; both shares are 0. The clock reads 1250 next. This is the state
  in which B sends \<open>REQUEST 1000\<close> a second time.
\<close>

definition demo_rerequest :: SharedMemory where
  "demo_rerequest =
     (upd_tool 0 (\<lambda>t. t\<lparr>current_user := 1023, current_usage := 200, tool_session_start := 1000\<rparr>)
       (upd_customer 1022
          (\<lambda>c. c\<lparr>customer_id := 4002, is_allocated := True, state := CUSTOMER_STATE_WAITING,
                  request_duration := 1000, remaining_duration := 1000, wait_start := 1050,
                  cust_heap_index := 1022\<rparr>)
          (upd_customer 1023
             (\<lambda>c. c\<lparr>customer_id := 4001, is_allocated := True, state := CUSTOMER_STATE_USING,
                     request_duration := 10000, remaining_duration := 9800, current_tool := 0,
                     session_start := 1000, cust_heap_index := 1023\<rparr>)
             (setup_shared_memory 100 500 1 (\<lambda>n. 1000 + 50 * int n)))))
     \<lparr>free_customer_count := 1022, waiting_count := 1, total_customers := 2,
      GLB := (\<lambda>i. \<lparr>key = 0, heap_index = NIL\<rparr>)(1022 := \<lparr>key = 0, heap_index = 0\<rparr>),
      HEAP_ARRAY := (\<lambda>i. 0)(0 := 1022),
      heap_size := 1,
      stdout := [''HeapError: Node 1022 does not appear to be initialized.''],
      clock_reads := 5\<rparr>"

lemma demo_rerequest_values:
  "heap_size demo_rerequest = 1" "HEAP_ARRAY demo_rerequest 0 = 1022"
  "num_tools demo_rerequest = 1" "q demo_rerequest = 100"
  "current_user (tools demo_rerequest 0) = 1023" "current_usage (tools demo_rerequest 0) = 200"
  "state (customers demo_rerequest 1022) = CUSTOMER_STATE_WAITING"
  "state (customers demo_rerequest 1023) = CUSTOMER_STATE_USING"
  "is_allocated (customers demo_rerequest 1022)" "is_allocated (customers demo_rerequest 1023)"
  "share (customers demo_rerequest 1022) = 0" "share (customers demo_rerequest 1023) = 0"
  "current_tool (customers demo_rerequest 1023) = 0"
  "cust_heap_index (customers demo_rerequest 1022) = 1022"
  "in_heap demo_rerequest 1022" "\<not> in_heap demo_rerequest 1023"
  "clock demo_rerequest (clock_reads demo_rerequest) = 1250"
  by (simp_all add: demo_rerequest_def setup_shared_memory_def in_heap_def NIL_def)

lemma demo_rerequest_wf: "heap_wf demo_rerequest"
  by (auto simp: heap_wf_def demo_rerequest_def MAX_NODES_def NIL_def int_upto_1)

lemma remove_customer_from_tool_variant_frame:
  "GLB (remove_customer_from_tool_variant i ev s) = GLB s"
  "HEAP_ARRAY (remove_customer_from_tool_variant i ev s) = HEAP_ARRAY s"
  "heap_size (remove_customer_from_tool_variant i ev s) = heap_size s"
  "m \<noteq> i \<Longrightarrow> customers (remove_customer_from_tool_variant i ev s) m = customers s m"
  by (simp_all add: remove_customer_from_tool_variant_def Let_def split_def
      get_current_time_ms_def)

lemma assign_tool_to_customer_variant_skip:
  assumes "\<not> cust_heap_index (customers s i) < heap_size s"
  shows "GLB (assign_tool_to_customer_variant i t s) = GLB s"
    and "state (customers (assign_tool_to_customer_variant i t s) i) = CUSTOMER_STATE_USING"
    and "current_user (tools (assign_tool_to_customer_variant i t s) t) = i"
    and "is_allocated (customers (assign_tool_to_customer_variant i t s) i)
           = is_allocated (customers s i)"
  using assms
  by (simp_all add: assign_tool_to_customer_variant_def Let_def split_def get_current_time_ms_def)

text \<open>
  Claim C3 on the variant. In \<open>demo_rerequest\<close> the heap is consistent
  (\<open>demo_rerequest_wf\<close>) and every allocated customer is in the queue exactly when it is
  Waiting. After \<open>handle_request\<close> of the variant for customer B (slot
  1022), B is in state Using and still in the queue: the holder A is preempted, and
  \<open>assign_tool_to_customer\<close> of the variant removes B from the queue only when the slot
  number 1022 is below \<open>heap_size\<close>.
\<close>

theorem handle_request_variant_leaves_user_in_queue:
  "is_allocated (customers demo_rerequest 1022) \<and>
   is_allocated (customers demo_rerequest 1023) \<and>
   in_heap demo_rerequest 1022 = (state (customers demo_rerequest 1022) = CUSTOMER_STATE_WAITING) \<and>
   in_heap demo_rerequest 1023 = (state (customers demo_rerequest 1023) = CUSTOMER_STATE_WAITING) \<and>
   is_allocated (customers (handle_request_variant 1022 1000 demo_rerequest) 1022) \<and>
   state (customers (handle_request_variant 1022 1000 demo_rerequest) 1022) = CUSTOMER_STATE_USING \<and>
   current_user (tools (handle_request_variant 1022 1000 demo_rerequest) 0) = 1022 \<and>
   in_heap (handle_request_variant 1022 1000 demo_rerequest) 1022"
proof -
  note v = demo_rerequest_values
  define p where "p = upd_customer 1022
      (\<lambda>c. c\<lparr>request_duration := 1000, remaining_duration := 1000\<rparr>) demo_rerequest"
  define r where "r = remove_customer_from_tool_variant 1023 EVENT_TOOL_REMOVED p"
  define e where "e = enter_queue 1023 r"
  have pv: "num_tools p = 1" "current_user (tools p 0) = 1023" "current_usage (tools p 0) = 200"
    "q p = 100" "share (customers p 1022) = 0" "share (customers p 1023) = 0"
    "cust_heap_index (customers p 1022) = 1022" "is_allocated (customers p 1022)"
    "heap_wf p" "min_heap p" "in_heap p 1022" "\<not> in_heap p 1023" "heap_size p = 1"
    by (simp_all add: p_def v demo_rerequest_wf min_heap_def)
  have free: "find_free_tool_variant p = -1"
    by (simp add: find_free_tool_variant_def find_free_tool_loop_variant.simps pv)
  have cand: "find_preemption_candidate_variant 0 p = 0"
    by (simp add: find_preemption_candidate_variant_def preemption_loop_variant.simps pv Let_def)
  have eq: "handle_request_variant 1022 1000 demo_rerequest
      = assign_tool_to_customer_variant 1022 0 e"
    using free cand
    by (simp add: handle_request_variant_def Let_def v p_def [symmetric] pv e_def r_def)
  note rf = remove_customer_from_tool_variant_frame
      [where i = 1023 and ev = EVENT_TOOL_REMOVED and s = p, folded r_def]
  have rh: "heap_wf r" "min_heap r" "in_heap r 1022" "\<not> in_heap r 1023" "0 < heap_size r"
    using pv(9-13) heap_preds_cong [OF rf(1,2,3)] by (simp_all add: rf(3))
  have h: "(0::int) \<le> 1023" "(1023::int) < MAX_NODES" by (simp_all add: MAX_NODES_def)
  note ep = enter_queue_props [OF rh(1) h rh(4), folded e_def]
  note er = enter_queue_root [OF rh(1,2) h rh(4,5), folded e_def]
  have ce: "cust_heap_index (customers e 1022) = 1022" "is_allocated (customers e 1022)"
    "in_heap e 1022" "heap_size e = 2"
    using rf(4) [where m = 1022] by (simp_all add: ep(2,4) er(2) rf(3) pv rh)
  have skip: "\<not> cust_heap_index (customers e 1022) < heap_size e" by (simp add: ce)
  note av = assign_tool_to_customer_variant_skip [OF skip, of 0]
  have "in_heap (assign_tool_to_customer_variant 1022 0 e) 1022"
    using ce(3) by (simp add: in_heap_def av(1))
  then show ?thesis
    using av(2,3,4) ce(2) by (simp add: eq v demo_rerequest_wf)
qed

section \<open>Disconnect\<close>

text \<open>
  \<open>agent_process\<close> of code/hw1.c after \<open>pthread_join(socket_thread)\<close>, that is once the
  client has closed the socket or sent \<open>QUIT\<close>: the tool is released, \<open>is_allocated\<close> is
  cleared to end the notify thread, and after that thread is joined \<open>deallocate_customer\<close>
  is called. The notify thread finds \<open>is_allocated\<close> cleared and returns without a write to
  the shared region.
\<close>

definition agent_process_cleanup :: "int \<Rightarrow> SharedMemory \<Rightarrow> SharedMemory" where
  "agent_process_cleanup customer_idx s =
     (let s = (if state (customers s customer_idx) = CUSTOMER_STATE_USING \<and>
                  current_tool (customers s customer_idx) \<noteq> -1
               then
                 let tid = current_tool (customers s customer_idx);
                     s = remove_customer_from_tool customer_idx EVENT_TOOL_COMPLETED s
                 in assign_next_from_queue tid s
               else s);
          s = upd_customer customer_idx (\<lambda>c. c\<lparr>is_allocated := False\<rparr>) s
      in deallocate_customer customer_idx s)"

text \<open>What \<open>deallocate_customer\<close> does to the counters when the slot is allocated.\<close>

lemma deallocate_customer_allocated:
  assumes "is_allocated (customers s idx)"
  shows "total_customers (deallocate_customer idx s) = total_customers s - 1"
    and "total_share (deallocate_customer idx s) = total_share s - share (customers s idx)"
    and "\<not> is_allocated (customers (deallocate_customer idx s) idx)"
    and "free_customer_count (deallocate_customer idx s) = free_customer_count s + 1"
proof -
  define d where "d = (if state (customers s idx) = CUSTOMER_STATE_RESTING
                 then s\<lparr>resting_customers := resting_customers s - 1\<rparr>
                 else if state (customers s idx) = CUSTOMER_STATE_WAITING
                 then (let s = (if heap_index (GLB s idx) \<noteq> NIL
                                then snd (heap_delete idx s) else s)
                       in s\<lparr>waiting_count := waiting_count s - 1\<rparr>)
                 else if state (customers s idx) = CUSTOMER_STATE_USING
                 then (if current_tool (customers s idx) \<ge> 0 \<and>
                          current_tool (customers s idx) < num_tools s
                       then upd_tool (current_tool (customers s idx))
                              (\<lambda>t. t\<lparr>current_user := -1, current_usage := 0\<rparr>) s
                       else s)
                 else s)"
  have d: "total_customers d = total_customers s" "total_share d = total_share s"
    "customers d = customers s" "free_customer_count d = free_customer_count s"
    by (simp_all add: d_def Let_def)
  have eq: "deallocate_customer idx s =
      (upd_customer idx (\<lambda>c. c\<lparr>is_allocated := False, state := CUSTOMER_STATE_DELETED,
                          customer_id := -1, current_tool := -1\<rparr>)
         (d\<lparr>total_customers := total_customers d - 1,
            total_share := total_share d - share (customers d idx)\<rparr>))
      \<lparr>free_customer_slots := (free_customer_slots d)(free_customer_count d := idx),
       free_customer_count := free_customer_count d + 1\<rparr>"
    using assms by (simp add: deallocate_customer_def Let_def d_def [symmetric] upd_customer_def)
  show "total_customers (deallocate_customer idx s) = total_customers s - 1"
    "total_share (deallocate_customer idx s) = total_share s - share (customers s idx)"
    "\<not> is_allocated (customers (deallocate_customer idx s) idx)"
    "free_customer_count (deallocate_customer idx s) = free_customer_count s + 1"
    by (simp_all add: eq d)
qed

text \<open>On the disconnect path the slot is no longer marked allocated when
  \<open>deallocate_customer\<close> runs, and the call returns at its first test.\<close>

lemma agent_process_cleanup_counters:
  "state (customers s idx) \<noteq> CUSTOMER_STATE_USING \<Longrightarrow>
   agent_process_cleanup idx s = upd_customer idx (\<lambda>c. c\<lparr>is_allocated := False\<rparr>) s"
  by (simp add: agent_process_cleanup_def deallocate_customer_def Let_def)

text \<open>
  Claim C9 on the disconnect path of code/hw1.c. Customer A (slot 1023) with share 50 is the
  only customer and rests (\<open>demo_one_rested\<close>). After A disconnects, \<open>total_customers\<close> is
  still 1 and \<open>total_share\<close> still 50, the slot is not returned to the free list, and the
  next customer to connect starts with share 50, the share of the customer that left.
\<close>

theorem disconnect_keeps_departed_share:
  "is_allocated (customers demo_one_rested 1023) \<and>
   total_customers demo_one_rested = 1 \<and> total_share demo_one_rested = 50 \<and>
   share (customers demo_one_rested 1023) = 50 \<and>
   \<not> is_allocated (customers (agent_process_cleanup 1023 demo_one_rested) 1023) \<and>
   total_customers (agent_process_cleanup 1023 demo_one_rested) = 1 \<and>
   total_share (agent_process_cleanup 1023 demo_one_rested) = 50 \<and>
   free_customer_count (agent_process_cleanup 1023 demo_one_rested) = 1023 \<and>
   share (customers (snd (allocate_customer 4002 (agent_process_cleanup 1023 demo_one_rested)))
            (fst (allocate_customer 4002 (agent_process_cleanup 1023 demo_one_rested)))) = 50 \<and>
   total_customers (deallocate_customer 1023 demo_one_rested) = 0 \<and>
   total_share (deallocate_customer 1023 demo_one_rested) = 0"
proof -
  have v: "is_allocated (customers demo_one_rested 1023)"
    "total_customers demo_one_rested = 1" "total_share demo_one_rested = 50"
    "share (customers demo_one_rested 1023) = 50"
    "state (customers demo_one_rested 1023) = CUSTOMER_STATE_RESTING"
    "free_customer_count demo_one_rested = 1023"
    "free_customer_slots demo_one_rested 1022 = 1022"
    by (simp_all add: demo_one_rested_def upd_customer_def setup_shared_memory_def)
  have eq: "agent_process_cleanup 1023 demo_one_rested
      = upd_customer 1023 (\<lambda>c. c\<lparr>is_allocated := False\<rparr>) demo_one_rested"
    by (rule agent_process_cleanup_counters) (simp add: v)
  have a: "share (customers (snd (allocate_customer 4002 (agent_process_cleanup 1023 demo_one_rested)))
            (fst (allocate_customer 4002 (agent_process_cleanup 1023 demo_one_rested)))) = 50"
    by (simp add: eq allocate_customer_def Let_def v)
  show ?thesis
    using deallocate_customer_allocated [OF v(1)] a by (simp add: eq v)
qed

section \<open>The population average after a disconnect\<close>

lemma demo_pair_values:
  "is_allocated (customers demo_pair i) = (i = 1022 \<or> i = 1023)"
  "share (customers demo_pair 1022) = 10" "share (customers demo_pair 1023) = 50"
  "state (customers demo_pair 1023) = CUSTOMER_STATE_RESTING"
  "total_customers demo_pair = 2" "total_share demo_pair = 60"
  "free_customer_count demo_pair = 1022" "free_customer_slots demo_pair 1021 = 1021"
  by (auto simp: demo_pair_def upd_customer_def setup_shared_memory_def)

lemma demo_pair_slots: "allocated_slots demo_pair = {1022, 1023}"
  by (auto simp: allocated_slots_def demo_pair_values MAX_CUSTOMERS_def)

lemma demo_pair_left_slots: "allocated_slots (agent_process_cleanup 1023 demo_pair) = {1022}"
  by (auto simp: allocated_slots_def agent_process_cleanup_counters demo_pair_values
      upd_customer_def MAX_CUSTOMERS_def)

lemma demo_one_rested_left_slots:
  "allocated_slots (agent_process_cleanup 1023 demo_one_rested) = {}"
proof -
  have "state (customers demo_one_rested 1023) \<noteq> CUSTOMER_STATE_USING"
    by (simp add: demo_one_rested_def upd_customer_def)
  then show ?thesis
    by (auto simp: allocated_slots_def agent_process_cleanup_counters demo_one_rested_def
      upd_customer_def setup_shared_memory_def)
qed

text \<open>
  Claim C4 on states that code/hw1.c reaches. In \<open>demo_pair\<close> the counters agree with the
  customer table. After the customer of slot 1023 (share 50) has disconnected, the only
  allocated customer is the one of slot 1022, with share 10, so the population average over
  the allocated customers is 10; the customer that connects next receives 30, the quotient
  of counters that still count the customer that left. In the same way, after the only
  customer of \<open>demo_one_rested\<close> has disconnected no customer is allocated, and the next
  arrival receives 50. The counters are left as they are by the disconnect path of
  \<open>agent_process\<close>, where \<open>deallocate_customer\<close> runs on a slot no longer marked
  allocated.
\<close>

theorem arrival_share_counts_departed_customer:
  "total_customers demo_pair = int (card (allocated_slots demo_pair)) \<and>
   total_share demo_pair = (\<Sum>i\<in>allocated_slots demo_pair. share (customers demo_pair i)) \<and>
   allocated_slots (agent_process_cleanup 1023 demo_pair) = {1022} \<and>
   population_average (agent_process_cleanup 1023 demo_pair) = 10 \<and>
   share (customers (snd (allocate_customer 4003 (agent_process_cleanup 1023 demo_pair)))
            (fst (allocate_customer 4003 (agent_process_cleanup 1023 demo_pair)))) = 30 \<and>
   allocated_slots (agent_process_cleanup 1023 demo_one_rested) = {} \<and>
   population_average (agent_process_cleanup 1023 demo_one_rested) = 0 \<and>
   share (customers (snd (allocate_customer 4002 (agent_process_cleanup 1023 demo_one_rested)))
            (fst (allocate_customer 4002 (agent_process_cleanup 1023 demo_one_rested)))) = 50"
proof -
  have eq: "agent_process_cleanup 1023 demo_pair
      = upd_customer 1023 (\<lambda>c. c\<lparr>is_allocated := False\<rparr>) demo_pair"
    by (rule agent_process_cleanup_counters) (simp add: demo_pair_values)
  have a: "total_customers demo_pair = int (card (allocated_slots demo_pair))"
    "total_share demo_pair = (\<Sum>i\<in>allocated_slots demo_pair. share (customers demo_pair i))"
    by (simp_all add: demo_pair_slots demo_pair_values)
  have b: "population_average (agent_process_cleanup 1023 demo_pair) = 10"
    by (simp add: population_average_def demo_pair_left_slots)
      (simp add: eq upd_customer_def demo_pair_values)
  have c: "share (customers (snd (allocate_customer 4003 (agent_process_cleanup 1023 demo_pair)))
            (fst (allocate_customer 4003 (agent_process_cleanup 1023 demo_pair)))) = 30"
    by (simp add: eq allocate_customer_def Let_def demo_pair_values)
  have v: "state (customers demo_one_rested 1023) = CUSTOMER_STATE_RESTING"
    "total_customers demo_one_rested = 1" "total_share demo_one_rested = 50"
    "free_customer_count demo_one_rested = 1023"
    by (simp_all add: demo_one_rested_def upd_customer_def setup_shared_memory_def)
  have eq1: "agent_process_cleanup 1023 demo_one_rested
      = upd_customer 1023 (\<lambda>c. c\<lparr>is_allocated := False\<rparr>) demo_one_rested"
    by (rule agent_process_cleanup_counters) (simp add: v)
  have d: "population_average (agent_process_cleanup 1023 demo_one_rested) = 0"
    by (simp add: population_average_def demo_one_rested_left_slots)
  have e: "share (customers (snd (allocate_customer 4002 (agent_process_cleanup 1023 demo_one_rested)))
            (fst (allocate_customer 4002 (agent_process_cleanup 1023 demo_one_rested)))) = 50"
    by (simp add: eq1 allocate_customer_def Let_def v)
  show ?thesis
    using a b c d e demo_pair_left_slots demo_one_rested_left_slots by simp
qed

section \<open>Event lines logged and event lines forwarded\<close>



























end
